theory Spec2Isabelle
  imports Complex_Main "HOL-Library.Word"
begin

unbundle bit_operations_syntax

section \<open>Machine types\<close>

text \<open>
  Go's fixed-width integers are words; \<open>+\<close>, \<open>-\<close> and \<open>*\<close> wrap around as in Go.
  \<open>uint8\<close>, \<open>uint16\<close> and \<open>uint32\<close> are compared with the unsigned order \<open><\<close>;
  \<open>int\<close> (64 bits on the platforms the library targets), \<open>int32\<close> and
  \<open>time.Duration\<close> (an \<open>int64\<close> of nanoseconds) are compared with the signed order \<open><s\<close>.
  A \<open>time.Time\<close> is an instant in nanoseconds, counted from the zero value of \<open>time.Time\<close>.
\<close>

type_synonym u8 = "8 word"
type_synonym u16 = "16 word"
type_synonym u32 = "32 word"
type_synonym i32 = "32 word"
type_synonym i64 = "64 word"
type_synonym duration = "64 word"
type_synonym time = int

definition maxDuration :: duration where
  "maxDuration = 9223372036854775807"

definition minDuration :: duration where
  "minDuration = - 9223372036854775808"

text \<open>\<open>t.Sub(u)\<close> of Go's time package: the difference, saturated to the range of a Duration.\<close>

definition time_Sub :: "time \<Rightarrow> time \<Rightarrow> duration" where
  "time_Sub t u =
     (let d = t - u in
      if d > 9223372036854775807 then maxDuration
      else if d < - 9223372036854775808 then minDuration
      else word_of_int d)"

text \<open>\<open>time.Since(u)\<close>, with the clock reading \<open>now\<close> made explicit.\<close>

definition time_Since :: "time \<Rightarrow> time \<Rightarrow> duration" where
  "time_Since now u = time_Sub now u"

section \<open>Awareness (awareness.go)\<close>

record awareness =
  aw_max :: i64
  score :: i64

definition newAwareness :: "i64 \<Rightarrow> awareness" where
  "newAwareness mx = \<lparr> aw_max = mx, score = 0 \<rparr>"

definition ApplyDelta :: "i64 \<Rightarrow> awareness \<Rightarrow> awareness" where
  "ApplyDelta delta a =
     (let s = score a + delta in
      if s <s 0 then a\<lparr> score := 0 \<rparr>
      else if (aw_max a - 1) <s s then a\<lparr> score := aw_max a - 1 \<rparr>
      else a\<lparr> score := s \<rparr>)"

definition GetHealthScore :: "awareness \<Rightarrow> i64" where
  "GetHealthScore a = score a"

definition ScaleTimeout :: "awareness \<Rightarrow> duration \<Rightarrow> duration" where
  "ScaleTimeout a timeout = timeout * (score a + 1)"

text \<open>A sequence of \<open>ApplyDelta\<close> calls, in order.\<close>

definition applyDeltas :: "i64 list \<Rightarrow> awareness \<Rightarrow> awareness" where
  "applyDeltas ds a = foldl (\<lambda>b d. ApplyDelta d b) a ds"

section \<open>Suspicion timer (suspicion.go)\<close>

text \<open>
  The underlying \<open>time.Timer\<close>: either pending with a deadline, or no longer pending
  (fired or stopped). \<open>Stop()\<close> returns true exactly on a pending timer. The expiry of a
  pending timer is a step of its own, not part of the functions below.
\<close>

datatype timer = Pending time | Expired

text \<open>
  The values captured by the closure \<open>fn\<close> that \<open>suspectNode\<close> hands to \<open>newSuspicion\<close>:
  the suspected node's name, the time of the state change and the confirmation threshold.
\<close>

record timeout_closure =
  fn_Node :: string
  fn_changeTime :: time
  fn_k :: i64

record suspicion =
  s_n :: i32
  s_k :: i32
  s_min :: duration
  s_max :: duration
  s_start :: time
  s_timer :: timer
  s_timeoutFn :: timeout_closure
  s_confirmations :: "string set"

definition newSuspicion ::
  "time \<Rightarrow> string \<Rightarrow> i64 \<Rightarrow> duration \<Rightarrow> duration \<Rightarrow> timeout_closure \<Rightarrow> suspicion" where
  "newSuspicion now from k mn mx fn =
     (let timeout = (if k <s 1 then mn else mx) in
      \<lparr> s_n = 0,
        s_k = ucast k,
        s_min = mn,
        s_max = mx,
        s_start = now,
        s_timer = Pending (now + sint timeout),
        s_timeoutFn = fn,
        s_confirmations = {from} \<rparr>)"

text \<open>
  \<open>Duration.Seconds()\<close> and \<open>remainingSuspicionTime\<close> compute in \<open>float64\<close>. Here the
  floating-point operations are read as operations on the reals, which leaves out their
  rounding; no statement below depends on the value this function returns.
\<close>

definition Seconds :: "duration \<Rightarrow> real" where
  "Seconds d = real_of_int (sint d) / 1000000000"

definition remainingSuspicionTime ::
  "i32 \<Rightarrow> i32 \<Rightarrow> duration \<Rightarrow> duration \<Rightarrow> duration \<Rightarrow> duration" where
  "remainingSuspicionTime n k elapsed mn mx =
     (let frac = ln (real_of_int (sint n) + 1) / ln (real_of_int (sint k) + 1);
          raw = Seconds mx - frac * (Seconds mx - Seconds mn);
          timeout0 = (word_of_int \<lfloor>1000 * raw\<rfloor> :: duration) * 1000000;
          timeout = (if timeout0 <s mn then mn else timeout0)
      in timeout - elapsed)"

text \<open>
  \<open>Confirm\<close> returns its boolean result, the record after the call, and whether it
  dispatched \<open>timeoutFn\<close> on a goroutine of its own (\<open>go s.timeoutFn()\<close>).
\<close>

definition Confirm :: "time \<Rightarrow> string \<Rightarrow> suspicion \<Rightarrow> bool \<times> suspicion \<times> bool" where
  "Confirm now from s =
     (if s_k s \<le>s s_n s then (False, s, False)
      else if from \<in> s_confirmations s then (False, s, False)
      else
        let s1 = s\<lparr> s_confirmations := insert from (s_confirmations s) \<rparr>;
            n = s_n s1 + 1;
            s2 = s1\<lparr> s_n := n \<rparr>;
            elapsed = time_Since now (s_start s2);
            remaining = remainingSuspicionTime n (s_k s2) elapsed (s_min s2) (s_max s2)
        in (case s_timer s2 of
              Pending d \<Rightarrow>
                if 0 <s remaining
                then (True, s2\<lparr> s_timer := Pending (now + sint remaining) \<rparr>, False)
                else (True, s2\<lparr> s_timer := Expired \<rparr>, True)
            | Expired \<Rightarrow> (True, s2, False)))"

section \<open>Nodes and messages\<close>

datatype NodeStateType = StateAlive | StateSuspect | StateDead | StateLeft

text \<open>
  \<open>Node\<close> has a \<open>State\<close> field of its own, which \<open>nodeState\<close> shadows with its \<open>State\<close>;
  the inner one is \<open>Node_State\<close> here. \<open>net.IP\<close> and \<open>[]byte\<close> are byte lists; \<open>bytes.Equal\<close>
  is equality of the contents, so a nil slice and an empty one are the same list.
\<close>

record Node =
  Name :: string
  Addr :: "u8 list"
  Port :: u16
  Meta :: "u8 list"
  Node_State :: NodeStateType
  PMin :: u8
  PMax :: u8
  PCur :: u8
  DMin :: u8
  DMax :: u8
  DCur :: u8

record nodeState = Node +
  Incarnation :: u32
  State :: NodeStateType
  StateChange :: time

definition DeadOrLeft :: "nodeState \<Rightarrow> bool" where
  "DeadOrLeft n = (State n = StateDead \<or> State n = StateLeft)"

text \<open>\<open>&state.Node\<close>: the embedded \<open>Node\<close> of a \<open>nodeState\<close>.\<close>

definition node_of :: "nodeState \<Rightarrow> Node" where
  "node_of n = Node.truncate n"

text \<open>
  Modelled from the spec: the message records \<open>alive\<close>, \<open>suspect\<close>, \<open>dead\<close> and
  \<open>pushNodeState\<close> are declared elsewhere in the repository. Their fields are those of
  the spec's message kinds, which are also the ones the handlers read; \<open>vsn\<close> is a byte
  slice that the handlers index and take the length of.
\<close>

record alive =
  a_Incarnation :: u32
  a_Node :: string
  a_Addr :: "u8 list"
  a_Port :: u16
  a_Meta :: "u8 list"
  a_Vsn :: "u8 list"

record suspect =
  su_Incarnation :: u32
  su_Node :: string
  su_From :: string

record dead =
  d_Incarnation :: u32
  d_Node :: string
  d_From :: string

record pushNodeState =
  p_Name :: string
  p_Addr :: "u8 list"
  p_Port :: u16
  p_Meta :: "u8 list"
  p_Incarnation :: u32
  p_State :: NodeStateType
  p_Vsn :: "u8 list"

section \<open>The member list\<close>

text \<open>
  What a handler does to the outside is appended to a log: messages queued for gossip
  (with the queue key and the notify channel), delegate callbacks, and a \<open>timeoutFn\<close>
  dispatched by \<open>Confirm\<close>. Logging and metrics calls are left out.
\<close>

datatype message = AliveMsg alive | SuspectMsg suspect | DeadMsg dead

datatype bkey = KeyName string | KeyAddr "u8 list"

datatype notify = NoChan | Chan nat | LeaveBroadcast

datatype effect =
    Broadcast bkey message notify
  | NotifyConflict Node Node
  | NotifyJoin Node
  | NotifyUpdate Node
  | NotifyLeave Node
  | SpawnTimeoutFn timeout_closure

text \<open>
  The configuration fields the handlers read (the \<open>Config\<close> struct itself is declared
  elsewhere in the repository). \<open>Alive\<close> is the optional alive delegate,
  its function returning \<open>True\<close> for a non-nil error; \<open>Conflict\<close> and \<open>Events\<close> say whether
  those delegates are set; \<open>IPAllowed\<close> returns \<open>True\<close> when the address is allowed (a nil
  error).
\<close>

record Config =
  cfg_Name :: string
  SuspicionMult :: i64
  SuspicionMaxTimeoutMult :: i64
  ProbeInterval :: duration
  DeadNodeReclaimTime :: duration
  GossipToTheDeadTime :: duration
  Alive :: "(Node \<Rightarrow> bool) option"
  Conflict :: bool
  Events :: bool
  IPAllowed :: "u8 list \<Rightarrow> bool"

datatype panic = IndexOutOfRange

text \<open>
  \<open>nodeMap\<close> and \<open>nodes\<close> hold pointers to the same \<open>nodeState\<close> objects. Pointers are
  addresses into \<open>heap\<close>; \<open>nextPtr\<close> is the next address an allocation returns.
  \<open>leave\<close> is the flag \<open>hasLeft()\<close> reads.
\<close>

record Memberlist =
  config :: Config
  leave :: bool
  incarnation :: u32
  numNodes :: u32
  nodes :: "nat list"
  nodeMap :: "string \<rightharpoonup> nat"
  heap :: "nat \<Rightarrow> nodeState"
  nextPtr :: nat
  nodeTimers :: "string \<rightharpoonup> suspicion"
  awareness :: awareness
  effects :: "effect list"

definition emit :: "effect \<Rightarrow> Memberlist \<Rightarrow> Memberlist" where
  "emit e m = m\<lparr> effects := effects m @ [e] \<rparr>"

text \<open>
  Modelled from the spec: \<open>hasLeft\<close> is defined elsewhere in the repository. The spec's
  handlers ask whether "self has left"; that is the flag \<open>leave\<close>.
\<close>

definition hasLeft :: "Memberlist \<Rightarrow> bool" where
  "hasLeft m = leave m"

definition estNumNodes :: "Memberlist \<Rightarrow> i64" where
  "estNumNodes m = ucast (numNodes m)"

text \<open>Go's zero value of a \<open>nodeState\<close>.\<close>

definition zeroNodeState :: nodeState where
  "zeroNodeState =
     \<lparr> Name = [], Addr = [], Port = 0, Meta = [], Node_State = StateAlive,
       PMin = 0, PMax = 0, PCur = 0, DMin = 0, DMax = 0, DCur = 0,
       Incarnation = 0, State = StateAlive, StateChange = 0 \<rparr>"

text \<open>
  Modelled from the spec: the constructor of the member list is defined elsewhere in the
  repository. By the spec a \<open>NodeState\<close> is created on first observation, so the table
  starts empty; the counters start at Go's zero values.
\<close>

definition initial :: "Config \<Rightarrow> i64 \<Rightarrow> Memberlist" where
  "initial cfg awmax =
     \<lparr> config = cfg, leave = False, incarnation = 0, numNodes = 0, nodes = [],
       nodeMap = Map.empty, heap = (\<lambda>_. zeroNodeState), nextPtr = 0,
       nodeTimers = Map.empty, awareness = newAwareness awmax, effects = [] \<rparr>"

subsection \<open>refute\<close>

definition nextIncarnation :: "Memberlist \<Rightarrow> u32 \<times> Memberlist" where
  "nextIncarnation m = (incarnation m + 1, m\<lparr> incarnation := incarnation m + 1 \<rparr>)"

definition skipIncarnation :: "u32 \<Rightarrow> Memberlist \<Rightarrow> u32 \<times> Memberlist" where
  "skipIncarnation offset m =
     (incarnation m + offset, m\<lparr> incarnation := incarnation m + offset \<rparr>)"

definition alive_of :: "u32 \<Rightarrow> nodeState \<Rightarrow> alive" where
  "alive_of inc me =
     \<lparr> a_Incarnation = inc, a_Node = Name me, a_Addr = Addr me, a_Port = Port me,
       a_Meta = Meta me,
       a_Vsn = [PMin me, PMax me, PCur me, DMin me, DMax me, DCur me] \<rparr>"

text \<open>\<open>me\<close> is the pointer to the local node's \<open>nodeState\<close>.\<close>

definition refute :: "nat \<Rightarrow> u32 \<Rightarrow> Memberlist \<Rightarrow> Memberlist" where
  "refute me accusedInc m =
     (let (inc0, m1) = nextIncarnation m;
          (inc, m2) = (if inc0 \<le> accusedInc
                       then skipIncarnation (accusedInc - inc0 + 1) m1
                       else (inc0, m1));
          st = (heap m2 me)\<lparr> Incarnation := inc \<rparr>;
          m3 = m2\<lparr> heap := (heap m2)(me := st) \<rparr>;
          m4 = m3\<lparr> awareness := ApplyDelta 1 (awareness m3) \<rparr>
      in emit (Broadcast (KeyAddr (Addr st)) (AliveMsg (alive_of inc st)) NoChan) m4)"

subsection \<open>aliveNode\<close>

text \<open>The protocol version check at the head of \<open>aliveNode\<close>.\<close>

definition alive_vsn_wrong :: "alive \<Rightarrow> bool" where
  "alive_vsn_wrong a =
     (3 \<le> length (a_Vsn a) \<and>
      (let pMin = a_Vsn a ! 0; pMax = a_Vsn a ! 1
       in pMin = 0 \<or> pMax = 0 \<or> pMax < pMin))"

text \<open>The alive delegate, if any: true when the message is to be ignored.\<close>

definition alive_delegate_rejects :: "Config \<Rightarrow> alive \<Rightarrow> bool" where
  "alive_delegate_rejects cfg a =
     (case Alive cfg of
        None \<Rightarrow> False
      | Some NotifyAlive \<Rightarrow>
          length (a_Vsn a) < 6 \<or>
          NotifyAlive
            \<lparr> Name = a_Node a, Addr = a_Addr a, Port = a_Port a, Meta = a_Meta a,
              Node_State = StateAlive,
              PMin = a_Vsn a ! 0, PMax = a_Vsn a ! 1, PCur = a_Vsn a ! 2,
              DMin = a_Vsn a ! 3, DMax = a_Vsn a ! 4, DCur = a_Vsn a ! 5 \<rparr>)"

text \<open>The \<open>nodeState\<close> built for a name seen for the first time.\<close>

definition new_nodeState :: "alive \<Rightarrow> nodeState" where
  "new_nodeState a =
     (let st = \<lparr> Name = a_Node a, Addr = a_Addr a, Port = a_Port a, Meta = a_Meta a,
                 Node_State = StateAlive,
                 PMin = 0, PMax = 0, PCur = 0, DMin = 0, DMax = 0, DCur = 0,
                 Incarnation = 0, State = StateDead, StateChange = 0 \<rparr>
      in if 5 < length (a_Vsn a)
         then st\<lparr> PMin := a_Vsn a ! 0, PMax := a_Vsn a ! 1, PCur := a_Vsn a ! 2,
                  DMin := a_Vsn a ! 3, DMax := a_Vsn a ! 4, DCur := a_Vsn a ! 5 \<rparr>
         else st)"

text \<open>
  Adding the new node to the map and the sequence. \<open>offset\<close> is what \<open>randomOffset(n)\<close>
  returned (that function is defined elsewhere in the repository, so its result is a
  parameter); the caller has checked \<open>offset \<le> n\<close>, the bound of the indexing
  \<open>m.nodes[offset]\<close> after the append.
\<close>

definition alive_insert :: "nat \<Rightarrow> alive \<Rightarrow> Memberlist \<Rightarrow> Memberlist" where
  "alive_insert offset a m =
     (let p = nextPtr m;
          n = length (nodes m);
          ns = nodes m @ [p];
          ns' = ns[offset := ns ! n, n := ns ! offset]
      in m\<lparr> heap := (heap m)(p := new_nodeState a),
            nextPtr := Suc p,
            nodeMap := (nodeMap m)(a_Node a \<mapsto> p),
            nodes := ns',
            numNodes := numNodes m + 1 \<rparr>)"

text \<open>The event delegate's notification at the end of \<open>aliveNode\<close>.\<close>

definition alive_notify :: "NodeStateType \<Rightarrow> u8 list \<Rightarrow> nat \<Rightarrow> Memberlist \<Rightarrow> Memberlist" where
  "alive_notify oldState oldMeta p m =
     (if Events (config m)
      then (if oldState = StateDead \<or> oldState = StateLeft
            then emit (NotifyJoin (node_of (heap m p))) m
            else if oldMeta \<noteq> Meta (heap m p)
            then emit (NotifyUpdate (node_of (heap m p))) m
            else m)
      else m)"

text \<open>
  The part of \<open>aliveNode\<close> from the incarnation checks on; \<open>p\<close> is the pointer \<open>state\<close>.
  Reading \<open>a.Vsn[0..5]\<close> of a non-empty version vector shorter than six panics.
\<close>

definition alive_update ::
  "time \<Rightarrow> alive \<Rightarrow> notify \<Rightarrow> bool \<Rightarrow> nat \<Rightarrow> bool \<Rightarrow> Memberlist \<Rightarrow> panic + Memberlist" where
  "alive_update now a ntf bootstrap p updatesNode m =
     (let state = heap m p;
          isLocalNode = (Name state = cfg_Name (config m))
      in
      if a_Incarnation a \<le> Incarnation state \<and> \<not> isLocalNode \<and> \<not> updatesNode then Inr m
      else if a_Incarnation a < Incarnation state \<and> isLocalNode then Inr m
      else
        let m1 = m\<lparr> nodeTimers := (nodeTimers m)(a_Node a := None) \<rparr>;
            oldState = State state;
            oldMeta = Meta state
        in
        if \<not> bootstrap \<and> isLocalNode then
          (let versions = [PMin state, PMax state, PCur state,
                           DMin state, DMax state, DCur state]
           in if a_Incarnation a = Incarnation state \<and> a_Meta a = Meta state \<and>
                 a_Vsn a = versions
              then Inr m1
              else Inr (alive_notify oldState oldMeta p (refute p (a_Incarnation a) m1)))
        else
          (let m2 = emit (Broadcast (KeyName (a_Node a)) (AliveMsg a) ntf) m1
           in if 0 < length (a_Vsn a) \<and> length (a_Vsn a) < 6 then Inl IndexOutOfRange
              else
                let st1 = (if 0 < length (a_Vsn a)
                           then state\<lparr> PMin := a_Vsn a ! 0, PMax := a_Vsn a ! 1,
                                       PCur := a_Vsn a ! 2, DMin := a_Vsn a ! 3,
                                       DMax := a_Vsn a ! 4, DCur := a_Vsn a ! 5 \<rparr>
                           else state);
                    st2 = st1\<lparr> Incarnation := a_Incarnation a, Meta := a_Meta a,
                               Addr := a_Addr a, Port := a_Port a \<rparr>;
                    st3 = (if State st2 \<noteq> StateAlive
                           then st2\<lparr> State := StateAlive, StateChange := now \<rparr>
                           else st2);
                    m3 = m2\<lparr> heap := (heap m2)(p := st3) \<rparr>
                in Inr (alive_notify oldState oldMeta p m3)))"

text \<open>\<open>canReclaim\<close> of \<open>aliveNode\<close>, for the stored entry \<open>state\<close>.\<close>

definition canReclaim :: "Config \<Rightarrow> time \<Rightarrow> nodeState \<Rightarrow> bool" where
  "canReclaim cfg now state =
     (0 <s DeadNodeReclaimTime cfg \<and>
      DeadNodeReclaimTime cfg <s time_Since now (StateChange state))"

definition conflict_other :: "alive \<Rightarrow> Node" where
  "conflict_other a =
     \<lparr> Name = a_Node a, Addr = a_Addr a, Port = a_Port a, Meta = a_Meta a,
       Node_State = StateAlive,
       PMin = 0, PMax = 0, PCur = 0, DMin = 0, DMax = 0, DCur = 0 \<rparr>"

definition aliveNode ::
  "time \<Rightarrow> nat \<Rightarrow> alive \<Rightarrow> notify \<Rightarrow> bool \<Rightarrow> Memberlist \<Rightarrow> panic + Memberlist" where
  "aliveNode now offset a ntf bootstrap m =
     (if hasLeft m \<and> a_Node a = cfg_Name (config m) then Inr m
      else if alive_vsn_wrong a then Inr m
      else if alive_delegate_rejects (config m) a then Inr m
      else
        case nodeMap m (a_Node a) of
          None \<Rightarrow>
            if \<not> IPAllowed (config m) (a_Addr a) then Inr m
            else if length (nodes m) < offset then Inl IndexOutOfRange
            else alive_update now a ntf bootstrap (nextPtr m) False (alive_insert offset a m)
        | Some p \<Rightarrow>
            let state = heap m p in
            if Addr state \<noteq> a_Addr a \<or> Port state \<noteq> a_Port a then
              (if \<not> IPAllowed (config m) (a_Addr a) then Inr m
               else if State state = StateLeft \<or>
                       (State state = StateDead \<and> canReclaim (config m) now state)
               then alive_update now a ntf bootstrap p True m
               else if Conflict (config m)
               then Inr (emit (NotifyConflict (node_of state) (conflict_other a)) m)
               else Inr m)
            else alive_update now a ntf bootstrap p False m)"

subsection \<open>suspectNode\<close>

text \<open>
  The confirmation threshold \<open>k\<close> that \<open>suspectNode\<close> computes and hands to
  \<open>newSuspicion\<close>.
\<close>

definition suspicion_k :: "Memberlist \<Rightarrow> i64" where
  "suspicion_k m =
     (let k = SuspicionMult (config m) - 2;
          n = estNumNodes m
      in if n - 2 <s k then 0 else k)"

text \<open>
  \<open>suspicionTimeout\<close> is a helper defined elsewhere in the repository; it is a parameter
  of \<open>suspectNode\<close> here.
\<close>

definition suspectNode ::
  "(i64 \<Rightarrow> i64 \<Rightarrow> duration \<Rightarrow> duration) \<Rightarrow> time \<Rightarrow> suspect \<Rightarrow> Memberlist \<Rightarrow> Memberlist" where
  "suspectNode suspicionTimeout now s m =
     (case nodeMap m (su_Node s) of
        None \<Rightarrow> m
      | Some p \<Rightarrow>
          let state = heap m p in
          if su_Incarnation s < Incarnation state then m
          else
            case nodeTimers m (su_Node s) of
              Some tm \<Rightarrow>
                (let (ok, tm', spawned) = Confirm now (su_From s) tm;
                     m1 = m\<lparr> nodeTimers := (nodeTimers m)(su_Node s \<mapsto> tm') \<rparr>;
                     m2 = (if spawned then emit (SpawnTimeoutFn (s_timeoutFn tm')) m1 else m1)
                 in if ok then emit (Broadcast (KeyName (su_Node s)) (SuspectMsg s) NoChan) m2
                    else m2)
            | None \<Rightarrow>
                if State state \<noteq> StateAlive then m
                else if Name state = cfg_Name (config m) then refute p (su_Incarnation s) m
                else
                  let m1 = emit (Broadcast (KeyName (su_Node s)) (SuspectMsg s) NoChan) m;
                      changeTime = now;
                      st = state\<lparr> Incarnation := su_Incarnation s, State := StateSuspect,
                                   StateChange := changeTime \<rparr>;
                      m2 = m1\<lparr> heap := (heap m1)(p := st) \<rparr>;
                      k = suspicion_k m2;
                      n = estNumNodes m2;
                      mn = suspicionTimeout (SuspicionMult (config m2)) n
                             (ProbeInterval (config m2));
                      mx = SuspicionMaxTimeoutMult (config m2) * mn;
                      fn = \<lparr> fn_Node = su_Node s, fn_changeTime = changeTime, fn_k = k \<rparr>
                  in m2\<lparr> nodeTimers :=
                           (nodeTimers m2)(su_Node s \<mapsto> newSuspicion now (su_From s) k mn mx fn) \<rparr>)"

subsection \<open>deadNode\<close>

definition dead_commit :: "time \<Rightarrow> dead \<Rightarrow> nat \<Rightarrow> Memberlist \<Rightarrow> Memberlist" where
  "dead_commit now d p m =
     (let state = heap m p;
          st = state\<lparr> Incarnation := d_Incarnation d,
                       State := (if d_Node d = d_From d then StateLeft else StateDead),
                       StateChange := now \<rparr>;
          m1 = m\<lparr> heap := (heap m)(p := st) \<rparr>
      in if Events (config m1) then emit (NotifyLeave (node_of st)) m1 else m1)"

definition deadNode :: "time \<Rightarrow> dead \<Rightarrow> Memberlist \<Rightarrow> Memberlist" where
  "deadNode now d m =
     (case nodeMap m (d_Node d) of
        None \<Rightarrow> m
      | Some p \<Rightarrow>
          let state = heap m p in
          if d_Incarnation d < Incarnation state then m
          else
            let m1 = m\<lparr> nodeTimers := (nodeTimers m)(d_Node d := None) \<rparr> in
            if DeadOrLeft state then m1
            else if Name state = cfg_Name (config m1) then
              (if \<not> hasLeft m1 then refute p (d_Incarnation d) m1
               else dead_commit now d p
                      (emit (Broadcast (KeyName (d_Node d)) (DeadMsg d) LeaveBroadcast) m1))
            else dead_commit now d p
                   (emit (Broadcast (KeyName (d_Node d)) (DeadMsg d) NoChan) m1))"

text \<open>
  The closure \<open>fn\<close> of \<open>suspectNode\<close>, run when the suspicion timer expires or when
  \<open>Confirm\<close> dispatches it.
\<close>

definition timeoutFn :: "time \<Rightarrow> timeout_closure \<Rightarrow> Memberlist \<Rightarrow> Memberlist" where
  "timeoutFn now c m =
     (case nodeMap m (fn_Node c) of
        None \<Rightarrow> m
      | Some p \<Rightarrow>
          let state = heap m p in
          if State state = StateSuspect \<and> StateChange state = fn_changeTime c
          then deadNode now
                 \<lparr> d_Incarnation = Incarnation state, d_Node = Name state,
                   d_From = cfg_Name (config m) \<rparr> m
          else m)"

subsection \<open>resetNodes\<close>

text \<open>
  Modelled from the spec: the test of \<open>moveDeadNodes\<close>, which is defined elsewhere in the
  repository. The spec has \<open>reset_nodes\<close> reap the entries that are Dead past
  \<open>gossip_to_the_dead_time\<close>.
\<close>

definition reapable :: "(nat \<Rightarrow> nodeState) \<Rightarrow> time \<Rightarrow> duration \<Rightarrow> nat \<Rightarrow> bool" where
  "reapable h now gossipToTheDeadTime p =
     (State (h p) = StateDead \<and> gossipToTheDeadTime <s time_Since now (StateChange (h p)))"

text \<open>
  Modelled from the spec: \<open>moveDeadNodes\<close> is defined elsewhere in the repository. The
  comment in \<open>resetNodes\<close> has the entries to reap moved to the end of the list, the
  returned index being that of the first of them. The entries keep their relative
  order here.
\<close>

definition moveDeadNodes ::
  "(nat \<Rightarrow> nodeState) \<Rightarrow> time \<Rightarrow> nat list \<Rightarrow> duration \<Rightarrow> nat list \<times> nat" where
  "moveDeadNodes h now ns gossipToTheDeadTime =
     (let keep = filter (\<lambda>p. \<not> reapable h now gossipToTheDeadTime p) ns;
          gone = filter (reapable h now gossipToTheDeadTime) ns
      in (keep @ gone, length keep))"

text \<open>
  Modelled from the spec: \<open>shuffleNodes\<close> is defined elsewhere in the repository; the
  spec says that the sequence is shuffled. The permutation is a sequence of swaps,
  \<open>swaps\<close>, drawn by the random source; a swap with an index outside the list is
  skipped.
\<close>

definition shuffleNodes :: "(nat \<times> nat) list \<Rightarrow> 'a list \<Rightarrow> 'a list" where
  "shuffleNodes swaps ns =
     fold (\<lambda>(i, j) xs. if i < length xs \<and> j < length xs
                        then xs[i := xs ! j, j := xs ! i] else xs) swaps ns"

definition resetNodes :: "time \<Rightarrow> (nat \<times> nat) list \<Rightarrow> Memberlist \<Rightarrow> Memberlist" where
  "resetNodes now swaps m =
     (let (ns, deadIdx) = moveDeadNodes (heap m) now (nodes m) (GossipToTheDeadTime (config m));
          nm = fold (\<lambda>p nm'. nm'(Name (heap m p) := None)) (drop deadIdx ns) (nodeMap m);
          ns' = take deadIdx ns
      in m\<lparr> nodeMap := nm,
            nodes := shuffleNodes swaps ns',
            numNodes := of_nat deadIdx \<rparr>)"

subsection \<open>verifyProtocol\<close>

record vsn_bounds =
  maxpmin :: u8
  minpmax :: u8
  maxdmin :: u8
  mindmax :: u8

definition bounds0 :: vsn_bounds where
  "bounds0 = \<lparr> maxpmin = 0, minpmax = 255, maxdmin = 0, mindmax = 255 \<rparr>"

text \<open>One round of the four comparisons of the first two loops.\<close>

definition widen :: "u8 \<Rightarrow> u8 \<Rightarrow> u8 \<Rightarrow> u8 \<Rightarrow> vsn_bounds \<Rightarrow> vsn_bounds" where
  "widen pmin pmax dmin dmax b =
     \<lparr> maxpmin = (if maxpmin b < pmin then pmin else maxpmin b),
       minpmax = (if pmax < minpmax b then pmax else minpmax b),
       maxdmin = (if maxdmin b < dmin then dmin else maxdmin b),
       mindmax = (if dmax < mindmax b then dmax else mindmax b) \<rparr>"

text \<open>The loop over \<open>remote\<close>; \<open>rn.Vsn[4]\<close> panics on a non-empty vector shorter than five.\<close>

fun remote_bounds :: "pushNodeState list \<Rightarrow> vsn_bounds \<Rightarrow> panic + vsn_bounds" where
  "remote_bounds [] b = Inr b"
| "remote_bounds (rn # rs) b =
     (if p_State rn \<noteq> StateAlive then remote_bounds rs b
      else if length (p_Vsn rn) = 0 then remote_bounds rs b
      else if length (p_Vsn rn) < 5 then Inl IndexOutOfRange
      else remote_bounds rs
             (widen (p_Vsn rn ! 0) (p_Vsn rn ! 1) (p_Vsn rn ! 3) (p_Vsn rn ! 4) b))"

fun local_bounds :: "(nat \<Rightarrow> nodeState) \<Rightarrow> nat list \<Rightarrow> vsn_bounds \<Rightarrow> vsn_bounds" where
  "local_bounds h [] b = b"
| "local_bounds h (p # ps) b =
     (if State (h p) \<noteq> StateAlive then local_bounds h ps b
      else local_bounds h ps (widen (PMin (h p)) (PMax (h p)) (DMin (h p)) (DMax (h p)) b))"

text \<open>The error \<open>verifyProtocol\<close> returns: node name, offending version and the interval.\<close>

datatype version_error =
    ProtocolIncompatible string u8 u8 u8
  | DelegateIncompatible string u8 u8 u8

definition check_cur :: "string \<Rightarrow> u8 \<Rightarrow> u8 \<Rightarrow> vsn_bounds \<Rightarrow> version_error option" where
  "check_cur name nPCur nDCur b =
     (if nPCur < maxpmin b \<or> minpmax b < nPCur
      then Some (ProtocolIncompatible name nPCur (maxpmin b) (minpmax b))
      else if nDCur < maxdmin b \<or> mindmax b < nDCur
      then Some (DelegateIncompatible name nDCur (maxdmin b) (mindmax b))
      else None)"

text \<open>The loop over \<open>remote\<close> that checks; \<open>n.Vsn[5]\<close> panics on a non-empty vector shorter than six.\<close>

fun check_remote :: "pushNodeState list \<Rightarrow> vsn_bounds \<Rightarrow> panic + version_error option" where
  "check_remote [] b = Inr None"
| "check_remote (n # ns) b =
     (if 0 < length (p_Vsn n) \<and> length (p_Vsn n) < 6 then Inl IndexOutOfRange
      else
        let nPCur = (if 0 < length (p_Vsn n) then p_Vsn n ! 2 else 0);
            nDCur = (if 0 < length (p_Vsn n) then p_Vsn n ! 5 else 0)
        in case check_cur (p_Name n) nPCur nDCur b of
             Some e \<Rightarrow> Inr (Some e)
           | None \<Rightarrow> check_remote ns b)"

fun check_local :: "(nat \<Rightarrow> nodeState) \<Rightarrow> nat list \<Rightarrow> vsn_bounds \<Rightarrow> version_error option" where
  "check_local h [] b = None"
| "check_local h (p # ps) b =
     (case check_cur (Name (h p)) (PCur (h p)) (DCur (h p)) b of
        Some e \<Rightarrow> Some e
      | None \<Rightarrow> check_local h ps b)"

text \<open>\<open>Inr None\<close> is the nil error.\<close>

definition verifyProtocol :: "Memberlist \<Rightarrow> pushNodeState list \<Rightarrow> panic + version_error option" where
  "verifyProtocol m remote =
     (case remote_bounds remote bounds0 of
        Inl e \<Rightarrow> Inl e
      | Inr b0 \<Rightarrow>
          let b = local_bounds (heap m) (nodes m) b0 in
          case check_remote remote b of
            Inl e \<Rightarrow> Inl e
          | Inr (Some e) \<Rightarrow> Inr (Some e)
          | Inr None \<Rightarrow> Inr (check_local (heap m) (nodes m) b))"

text \<open>
  The cluster as the version check sees it. \<open>alive_ranges\<close> lists \<open>(pmin, pmax, dmin, dmax)\<close>
  of the alive remote entries that carry a version vector and of the alive local
  entries; \<open>all_current\<close> lists \<open>(pcur, dcur)\<close> of every remote and local entry, whatever
  its state, an entry without a version vector speaking version 0.
\<close>

definition alive_ranges :: "Memberlist \<Rightarrow> pushNodeState list \<Rightarrow> (u8 \<times> u8 \<times> u8 \<times> u8) list" where
  "alive_ranges m remote =
     map (\<lambda>rn. (p_Vsn rn ! 0, p_Vsn rn ! 1, p_Vsn rn ! 3, p_Vsn rn ! 4))
       (filter (\<lambda>rn. p_State rn = StateAlive \<and> p_Vsn rn \<noteq> []) remote) @
     map (\<lambda>p. (PMin (heap m p), PMax (heap m p), DMin (heap m p), DMax (heap m p)))
       (filter (\<lambda>p. State (heap m p) = StateAlive) (nodes m))"

definition all_current :: "Memberlist \<Rightarrow> pushNodeState list \<Rightarrow> (u8 \<times> u8) list" where
  "all_current m remote =
     map (\<lambda>rn. if p_Vsn rn = [] then (0, 0) else (p_Vsn rn ! 2, p_Vsn rn ! 5)) remote @
     map (\<lambda>p. (PCur (heap m p), DCur (heap m p))) (nodes m)"

text \<open>The same two lists with the alive entries only, as a reading of the check that skips the others would have them.\<close>

definition alive_current :: "Memberlist \<Rightarrow> pushNodeState list \<Rightarrow> (u8 \<times> u8) list" where
  "alive_current m remote =
     map (\<lambda>rn. if p_Vsn rn = [] then (0, 0) else (p_Vsn rn ! 2, p_Vsn rn ! 5))
       (filter (\<lambda>rn. p_State rn = StateAlive) remote) @
     map (\<lambda>p. (PCur (heap m p), DCur (heap m p)))
       (filter (\<lambda>p. State (heap m p) = StateAlive) (nodes m))"

definition range_bounds :: "(u8 \<times> u8 \<times> u8 \<times> u8) list \<Rightarrow> vsn_bounds" where
  "range_bounds rs =
     \<lparr> maxpmin = Max (set (0 # map (\<lambda>(pmin, pmax, dmin, dmax). pmin) rs)),
       minpmax = Min (set (255 # map (\<lambda>(pmin, pmax, dmin, dmax). pmax) rs)),
       maxdmin = Max (set (0 # map (\<lambda>(pmin, pmax, dmin, dmax). dmin) rs)),
       mindmax = Min (set (255 # map (\<lambda>(pmin, pmax, dmin, dmax). dmax) rs)) \<rparr>"

definition outside :: "vsn_bounds \<Rightarrow> u8 \<times> u8 \<Rightarrow> bool" where
  "outside b c =
     (fst c < maxpmin b \<or> minpmax b < fst c \<or> snd c < maxdmin b \<or> mindmax b < snd c)"

section \<open>Sequences of messages and reachable states\<close>




text \<open>
  The states the member list can be in: the initial one, and those the handlers,
  \<open>resetNodes\<close>, the timer closure and the setting of the leave flag lead to.
\<close>

inductive reachable :: "Memberlist \<Rightarrow> bool" where
  reach_initial: "reachable (initial cfg awmax)"
| reach_alive: "reachable m \<Longrightarrow> aliveNode now offset a ntf bootstrap m = Inr m' \<Longrightarrow> reachable m'"
| reach_suspect: "reachable m \<Longrightarrow> reachable (suspectNode st now s m)"
| reach_dead: "reachable m \<Longrightarrow> reachable (deadNode now d m)"
| reach_reset: "reachable m \<Longrightarrow> reachable (resetNodes now swaps m)"
| reach_timeout: "reachable m \<Longrightarrow> reachable (timeoutFn now c m)"
| reach_leave: "reachable m \<Longrightarrow> reachable (m\<lparr> leave := True \<rparr>)"

text \<open>
  Every pointer of the map is allocated and leads to the entry of that name; hence no
  two names share an entry.
\<close>

definition wf :: "Memberlist \<Rightarrow> bool" where
  "wf m = (\<forall>name p. nodeMap m name = Some p \<longrightarrow> p < nextPtr m \<and> Name (heap m p) = name)"

section \<open>Notions used in the properties\<close>

text \<open>The number of entries of the ordered sequence that are neither Dead nor Left.\<close>

definition live_count :: "Memberlist \<Rightarrow> nat" where
  "live_count m = length (filter (\<lambda>p. \<not> DeadOrLeft (heap m p)) (nodes m))"

text \<open>The incarnation \<open>refute\<close> arrives at, from the counter \<open>cur\<close> and the accusation.\<close>

definition refute_inc :: "u32 \<Rightarrow> u32 \<Rightarrow> u32" where
  "refute_inc cur accusedInc = (if cur + 1 \<le> accusedInc then accusedInc + 1 else cur + 1)"

text \<open>
  An alive message has passed the checks that come before the table lookup, the IP
  policy allows its address, and a conflict delegate is set.
\<close>

definition conflict_reported :: "Memberlist \<Rightarrow> alive \<Rightarrow> bool" where
  "conflict_reported m a =
     (\<not> (hasLeft m \<and> a_Node a = cfg_Name (config m)) \<and>
      \<not> alive_vsn_wrong a \<and>
      \<not> alive_delegate_rejects (config m) a \<and>
      IPAllowed (config m) (a_Addr a) \<and>
      Conflict (config m))"





section \<open>Example member lists\<close>

text \<open>
  A node \<open>a\<close> with one peer \<open>b\<close>. The IP policy refuses the address 10.0.0.9; durations
  are in nanoseconds. \<open>ex_timeout\<close> stands in for \<open>suspicionTimeout\<close>.
\<close>

definition ex_cfg :: Config where
  "ex_cfg =
     \<lparr> cfg_Name = ''a'', SuspicionMult = 4, SuspicionMaxTimeoutMult = 6,
       ProbeInterval = 1000, DeadNodeReclaimTime = 10, GossipToTheDeadTime = 30,
       Alive = None, Conflict = True, Events = True,
       IPAllowed = (\<lambda>ip. ip \<noteq> [10, 0, 0, 9]) \<rparr>"

definition ex_timeout :: "i64 \<Rightarrow> i64 \<Rightarrow> duration \<Rightarrow> duration" where
  "ex_timeout mult n interval = mult * interval"

definition ex_alive :: "string \<Rightarrow> u32 \<Rightarrow> u8 list \<Rightarrow> alive" where
  "ex_alive name inc ip =
     \<lparr> a_Incarnation = inc, a_Node = name, a_Addr = ip, a_Port = 7946, a_Meta = [],
       a_Vsn = [1, 5, 2, 0, 0, 0] \<rparr>"

text \<open>The local node has announced itself (bootstrap), at time 1.\<close>

definition ex_a :: "Config \<Rightarrow> Memberlist" where
  "ex_a cfg =
     (case aliveNode 1 0 (ex_alive ''a'' 1 [10, 0, 0, 1]) NoChan True (initial cfg 8) of
        Inr m \<Rightarrow> m | Inl x \<Rightarrow> initial cfg 8)"

text \<open>Then \<open>b\<close> was heard of, alive with incarnation 5, at time 2.\<close>

definition ex_ab :: "Config \<Rightarrow> Memberlist" where
  "ex_ab cfg =
     (case aliveNode 2 0 (ex_alive ''b'' 5 [10, 0, 0, 2]) NoChan False (ex_a cfg) of
        Inr m \<Rightarrow> m | Inl x \<Rightarrow> ex_a cfg)"

text \<open>Then \<open>b\<close> was declared dead by \<open>a\<close>, respectively announced its own leave, at time 3.\<close>

definition ex_b_dead :: "Config \<Rightarrow> Memberlist" where
  "ex_b_dead cfg =
     deadNode 3 \<lparr> d_Incarnation = 5, d_Node = ''b'', d_From = ''a'' \<rparr> (ex_ab cfg)"

definition ex_b_left :: "Config \<Rightarrow> Memberlist" where
  "ex_b_left cfg =
     deadNode 3 \<lparr> d_Incarnation = 5, d_Node = ''b'', d_From = ''b'' \<rparr> (ex_ab cfg)"

section \<open>Properties\<close>

subsection \<open>Awareness\<close>

lemma sint_minus_one_i64:
  fixes m :: i64
  assumes "1 \<le> sint m"
  shows "sint (m - 1) = sint m - 1"
proof -
  have "sint m < 2 ^ 63" using sint_lt [of m] by simp
  with assms show ?thesis
    by (simp add: sint_word_ariths signed_take_bit_int_eq_self)
qed

lemma ApplyDelta_range:
  assumes "1 \<le>s aw_max a"
  shows "0 \<le>s score (ApplyDelta d a) \<and> score (ApplyDelta d a) \<le>s aw_max a - 1"
proof -
  have m: "1 \<le> sint (aw_max a)" using assms by (simp add: word_sle_eq)
  have "0 \<le> sint (aw_max a - 1)" using sint_minus_one_i64 [OF m] m by simp
  then show ?thesis
    by (auto simp: ApplyDelta_def Let_def word_sle_eq word_sless_alt)
qed

lemma ApplyDelta_max [simp]: "aw_max (ApplyDelta d a) = aw_max a"
  by (simp add: ApplyDelta_def Let_def)

lemma applyDeltas_max [simp]: "aw_max (applyDeltas ds a) = aw_max a"
  unfolding applyDeltas_def by (induction ds arbitrary: a) simp_all

lemma applyDeltas_range:
  assumes "1 \<le>s aw_max a" and "0 \<le>s score a" and "score a \<le>s aw_max a - 1"
  shows "0 \<le>s score (applyDeltas ds a) \<and> score (applyDeltas ds a) \<le>s aw_max a - 1"
  using assms unfolding applyDeltas_def
proof (induction ds arbitrary: a)
  case Nil
  then show ?case by simp
next
  case (Cons d ds)
  have "1 \<le>s aw_max (ApplyDelta d a)" using Cons.prems(1) by simp
  moreover note ApplyDelta_range [OF Cons.prems(1), of d]
  ultimately show ?case using Cons.IH [of "ApplyDelta d a"] by simp
qed

lemma sint_scale_i64:
  fixes t s :: i64
  assumes "0 \<le> sint t" and "0 \<le> sint s" and "sint t * (sint s + 1) < 2 ^ 63"
  shows "sint (t * (s + 1)) = sint t * (sint s + 1)"
proof -
  have eq: "t * (s + 1) = word_of_int (sint t * (sint s + 1))"
    by simp
  have nonneg: "0 \<le> sint t * (sint s + 1)" using assms(1,2) by simp
  have "sint (word_of_int (sint t * (sint s + 1)) :: i64)
          = signed_take_bit 63 (sint t * (sint s + 1))"
    by (simp only: sint_sbintrunc') simp
  also have "\<dots> = sint t * (sint s + 1)"
    using assms(3) nonneg by (simp add: signed_take_bit_int_eq_self)
  finally show ?thesis
    by (simp only: eq)
qed

lemma ScaleTimeout_ge:
  assumes "0 \<le>s score a" and "0 \<le>s t" and "sint t * (sint (score a) + 1) < 2 ^ 63"
  shows "sint (ScaleTimeout a t) = sint t * (sint (score a) + 1) \<and> t \<le>s ScaleTimeout a t"
proof -
  have s: "0 \<le> sint (score a)" and t: "0 \<le> sint t"
    using assms(1,2) by (simp_all add: word_sle_eq)
  have eq: "sint (ScaleTimeout a t) = sint t * (sint (score a) + 1)"
    unfolding ScaleTimeout_def by (rule sint_scale_i64 [OF t s assms(3)])
  have "sint t * 1 \<le> sint t * (sint (score a) + 1)"
    using s t by (intro mult_left_mono) simp_all
  then show ?thesis using eq by (simp add: word_sle_eq)
qed

text \<open>
  C8 (amended). For an awareness object created with a bound \<open>max \<ge> 1\<close>, after every
  sequence of \<open>ApplyDelta\<close> calls with arbitrary 64-bit deltas (wrap-around of
  \<open>score + delta\<close> included) the score lies in \<open>[0, max - 1]\<close>. \<open>ScaleTimeout(t)\<close> is
  \<open>t * (score + 1)\<close> in 64-bit arithmetic; for a score \<open>\<ge> 0\<close> and a duration \<open>t \<ge> 0\<close>
  whose product \<open>t * (score + 1)\<close> fits a Duration it is the exact product and \<open>\<ge> t\<close>.
\<close>

theorem awareness_bounds:
  assumes "1 \<le>s mx"
  shows "0 \<le>s score (applyDeltas ds (newAwareness mx)) \<and>
         score (applyDeltas ds (newAwareness mx)) \<le>s mx - 1 \<and>
         (\<forall>a t. 0 \<le>s score a \<and> 0 \<le>s t \<and> sint t * (sint (score a) + 1) < 2 ^ 63 \<longrightarrow>
            ScaleTimeout a t = t * (score a + 1) \<and>
            sint (ScaleTimeout a t) = sint t * (sint (score a) + 1) \<and>
            t \<le>s ScaleTimeout a t)"
proof -
  have "1 \<le>s aw_max (newAwareness mx)" "0 \<le>s score (newAwareness mx)"
    using assms by (simp_all add: newAwareness_def)
  moreover have "score (newAwareness mx) \<le>s aw_max (newAwareness mx) - 1"
    using ApplyDelta_range [of "newAwareness mx" 0] assms
    by (simp add: newAwareness_def ApplyDelta_def Let_def split: if_splits)
  ultimately have "0 \<le>s score (applyDeltas ds (newAwareness mx)) \<and>
      score (applyDeltas ds (newAwareness mx)) \<le>s aw_max (newAwareness mx) - 1"
    by (rule applyDeltas_range)
  then show ?thesis
    using ScaleTimeout_ge by (auto simp: newAwareness_def ScaleTimeout_def)
qed

text \<open>
  With \<open>max = 8\<close>: five deltas leave the score at 7, and a 500 ms timeout scales to 4 s.
\<close>

theorem awareness_bounds_witness:
  "(1::i64) \<le>s 8 \<and>
   score (applyDeltas [1, 1, 1, -5, 100] (newAwareness 8)) = 7 \<and>
   0 \<le>s score (applyDeltas [1, 1, 1, -5, 100] (newAwareness 8)) \<and>
   score (applyDeltas [1, 1, 1, -5, 100] (newAwareness 8)) \<le>s 8 - 1 \<and>
   ScaleTimeout (applyDeltas [1, 1, 1, -5, 100] (newAwareness 8)) 500000000 = 4000000000 \<and>
   (500000000 :: duration) \<le>s ScaleTimeout (applyDeltas [1, 1, 1, -5, 100] (newAwareness 8)) 500000000"
  using awareness_bounds [of 8 "[1, 1, 1, -5, 100]"]
  by (simp add: applyDeltas_def ApplyDelta_def newAwareness_def ScaleTimeout_def Let_def
      word_sless_alt word_sle_eq)

text \<open>
  With \<open>max = 0\<close> one \<open>ApplyDelta(1)\<close> leaves the score at \<open>-1\<close>. With \<open>max = 8\<close> and
  a score of 3, the timeout \<open>2^62\<close> ns scales to \<open>2^64\<close>, which wraps to 0.
\<close>

theorem awareness_bounds_counterexample:
  "score (applyDeltas [1] (newAwareness 0)) <s 0 \<and>
   0 \<le>s score (applyDeltas [1, 1, 1] (newAwareness 8)) \<and>
   score (applyDeltas [1, 1, 1] (newAwareness 8)) \<le>s 7 \<and>
   (0 :: duration) \<le>s 4611686018427387904 \<and>
   ScaleTimeout (applyDeltas [1, 1, 1] (newAwareness 8)) 4611686018427387904 <s 4611686018427387904"
  by (simp add: applyDeltas_def ApplyDelta_def newAwareness_def ScaleTimeout_def Let_def
      word_sless_alt word_sle_eq)

subsection \<open>Suspicion timer\<close>

text \<open>
  C10. \<open>Confirm(from)\<close> returns false exactly when the confirmation count \<open>n\<close> has
  reached \<open>k\<close> or \<open>from\<close> is already in the confirmations set (where \<open>newSuspicion\<close> put the
  original accuser); whenever it returns false the record is the one before the call
  (\<open>n\<close>, the confirmations set, the pending timer and every other field), and no
  \<open>timeoutFn\<close> is dispatched.
\<close>

theorem Confirm_false_unchanged:
  "(\<not> fst (Confirm now from s) \<longleftrightarrow> (s_k s \<le>s s_n s \<or> from \<in> s_confirmations s)) \<and>
   (\<not> fst (Confirm now from s) \<longrightarrow> Confirm now from s = (False, s, False)) \<and>
   from \<in> s_confirmations (newSuspicion now' from k mn mx fn)"
  by (auto simp: Confirm_def newSuspicion_def Let_def split: if_splits timer.splits)

text \<open>
  The accuser \<open>a\<close> confirms its own suspicion: refused, and the record stays as built.
\<close>

theorem Confirm_false_unchanged_witness:
  "\<not> fst (Confirm 7 ''a''
            (newSuspicion 0 ''a'' 2 500 3000 \<lparr> fn_Node = ''b'', fn_changeTime = 0, fn_k = 2 \<rparr>)) \<and>
   Confirm 7 ''a''
     (newSuspicion 0 ''a'' 2 500 3000 \<lparr> fn_Node = ''b'', fn_changeTime = 0, fn_k = 2 \<rparr>)
   = (False,
      newSuspicion 0 ''a'' 2 500 3000 \<lparr> fn_Node = ''b'', fn_changeTime = 0, fn_k = 2 \<rparr>,
      False)"
  using Confirm_false_unchanged
    [of 7 "''a''"
        "newSuspicion 0 ''a'' 2 500 3000 \<lparr> fn_Node = ''b'', fn_changeTime = 0, fn_k = 2 \<rparr>"
        0 2 500 3000 "\<lparr> fn_Node = ''b'', fn_changeTime = 0, fn_k = 2 \<rparr>"]
  by (simp add: newSuspicion_def)

subsection \<open>What the handlers leave alone\<close>

lemma word_less_succ:
  fixes x :: "'a::len word"
  assumes "x \<noteq> - 1"
  shows "x < x + 1"
  using inc_less_eq_iff [of x "x + 1"] assms by simp

lemma refute_inc_greater: "accusedInc \<noteq> - 1 \<Longrightarrow> accusedInc < refute_inc cur accusedInc"
  by (auto simp: refute_inc_def word_less_succ)

lemma refute_frame:
  "nodeMap (refute me acc m) = nodeMap m"
  "nodes (refute me acc m) = nodes m"
  "numNodes (refute me acc m) = numNodes m"
  "nextPtr (refute me acc m) = nextPtr m"
  "config (refute me acc m) = config m"
  "leave (refute me acc m) = leave m"
  "nodeTimers (refute me acc m) = nodeTimers m"
  "incarnation (refute me acc m) = refute_inc (incarnation m) acc"
  "heap (refute me acc m) = (heap m)(me := (heap m me)\<lparr> Incarnation := refute_inc (incarnation m) acc \<rparr>)"
  by (simp_all add: refute_def refute_inc_def nextIncarnation_def skipIncarnation_def emit_def
      Let_def ac_simps split: prod.splits)

lemma refute_effects:
  "effects (refute me acc m) =
     effects m @ [Broadcast (KeyAddr (Addr (heap m me)))
        (AliveMsg (alive_of (refute_inc (incarnation m) acc) (heap (refute me acc m) me))) NoChan]"
  by (simp add: refute_def refute_inc_def nextIncarnation_def skipIncarnation_def emit_def
      Let_def alive_of_def ac_simps split: prod.splits)

lemma alive_notify_frame:
  "nodeMap (alive_notify os om p m) = nodeMap m"
  "nodes (alive_notify os om p m) = nodes m"
  "numNodes (alive_notify os om p m) = numNodes m"
  "nextPtr (alive_notify os om p m) = nextPtr m"
  "config (alive_notify os om p m) = config m"
  "leave (alive_notify os om p m) = leave m"
  "nodeTimers (alive_notify os om p m) = nodeTimers m"
  "incarnation (alive_notify os om p m) = incarnation m"
  "awareness (alive_notify os om p m) = awareness m"
  "heap (alive_notify os om p m) = heap m"
  by (simp_all add: alive_notify_def emit_def)

lemma alive_update_keeps:
  assumes "alive_update now a ntf b p upd m = Inr m'"
  shows "nodeMap m' = nodeMap m \<and> nodes m' = nodes m \<and> numNodes m' = numNodes m \<and>
    nextPtr m' = nextPtr m \<and> config m' = config m \<and> leave m' = leave m \<and>
    (\<forall>q. q \<noteq> p \<longrightarrow> heap m' q = heap m q) \<and> (\<forall>q. Name (heap m' q) = Name (heap m q))"
  using assms
  by (auto simp: alive_update_def Let_def alive_notify_frame refute_frame emit_def
      split: if_splits)

lemma alive_insert_frame:
  "nodeMap (alive_insert off a m) = (nodeMap m)(a_Node a \<mapsto> nextPtr m)"
  "length (nodes (alive_insert off a m)) = Suc (length (nodes m))"
  "numNodes (alive_insert off a m) = numNodes m + 1"
  "nextPtr (alive_insert off a m) = Suc (nextPtr m)"
  "config (alive_insert off a m) = config m"
  "leave (alive_insert off a m) = leave m"
  "heap (alive_insert off a m) = (heap m)(nextPtr m := new_nodeState a)"
  "nodeTimers (alive_insert off a m) = nodeTimers m"
  "effects (alive_insert off a m) = effects m"
  by (simp_all add: alive_insert_def Let_def)

lemma new_nodeState_fields:
  "Name (new_nodeState a) = a_Node a" "Addr (new_nodeState a) = a_Addr a"
  "Port (new_nodeState a) = a_Port a" "Incarnation (new_nodeState a) = 0"
  "State (new_nodeState a) = StateDead" "StateChange (new_nodeState a) = 0"
  by (simp_all add: new_nodeState_def Let_def)

lemma aliveNode_count:
  assumes "aliveNode now off a ntf b m = Inr m'"
    and "numNodes m = of_nat (length (nodes m))"
  shows "numNodes m' = of_nat (length (nodes m'))"
  using assms
  by (auto simp: aliveNode_def Let_def emit_def alive_insert_frame
      dest!: alive_update_keeps split: if_splits option.splits)

lemma aliveNode_config:
  assumes "aliveNode now off a ntf b m = Inr m'"
  shows "config m' = config m \<and> leave m' = leave m"
  using assms
  by (auto simp: aliveNode_def Let_def emit_def alive_insert_frame
      dest!: alive_update_keeps split: if_splits option.splits)

lemma aliveNode_wf:
  assumes "aliveNode now off a ntf b m = Inr m'" and "wf m"
  shows "wf m'"
proof (cases "nodeMap m (a_Node a)")
  case None
  show ?thesis
  proof (cases "alive_update now a ntf b (nextPtr m) False (alive_insert off a m) = Inr m'")
    case True
    note k = alive_update_keeps [OF True]
    show ?thesis
      unfolding wf_def
    proof (intro allI impI)
      fix name p assume "nodeMap m' name = Some p"
      then have np: "((nodeMap m)(a_Node a \<mapsto> nextPtr m)) name = Some p"
        using k by (simp add: alive_insert_frame)
      show "p < nextPtr m' \<and> Name (heap m' p) = name"
      proof (cases "name = a_Node a")
        case True
        then show ?thesis using np k
          by (simp add: alive_insert_frame new_nodeState_fields)
      next
        case False
        then have "nodeMap m name = Some p" using np by simp
        then have "p < nextPtr m" "Name (heap m p) = name"
          using assms(2) by (auto simp: wf_def)
        then show ?thesis using k by (simp add: alive_insert_frame)
      qed
    qed
  next
    case False
    then have "m' = m" using assms(1) None
      by (auto simp: aliveNode_def split: if_splits)
    then show ?thesis using assms(2) by simp
  qed
next
  case (Some p)
  have "(\<exists>upd. alive_update now a ntf b p upd m = Inr m') \<or> effects_only"
    if "effects_only = (m' = m \<or> m' = emit (NotifyConflict (node_of (heap m p)) (conflict_other a)) m)"
    for effects_only
    using assms(1) Some that by (auto simp: aliveNode_def Let_def split: if_splits)
  then consider upd where "alive_update now a ntf b p upd m = Inr m'"
    | "m' = m" | "m' = emit (NotifyConflict (node_of (heap m p)) (conflict_other a)) m"
    by blast
  then show ?thesis
  proof cases
    case 1
    note k = alive_update_keeps [OF 1]
    show ?thesis using assms(2) k unfolding wf_def by simp
  next
    case 2
    then show ?thesis using assms(2) by simp
  next
    case 3
    then show ?thesis using assms(2) by (simp add: wf_def emit_def)
  qed
qed

lemma suspectNode_keeps:
  "nodeMap (suspectNode st now s m) = nodeMap m \<and> nodes (suspectNode st now s m) = nodes m \<and>
   numNodes (suspectNode st now s m) = numNodes m \<and> nextPtr (suspectNode st now s m) = nextPtr m \<and>
   config (suspectNode st now s m) = config m \<and> leave (suspectNode st now s m) = leave m \<and>
   (\<forall>q. nodeMap m (su_Node s) \<noteq> Some q \<longrightarrow> heap (suspectNode st now s m) q = heap m q) \<and>
   (\<forall>q. Name (heap (suspectNode st now s m) q) = Name (heap m q))"
  by (auto simp: suspectNode_def Let_def refute_frame emit_def
      split: option.splits prod.splits)

lemma dead_commit_keeps:
  "nodeMap (dead_commit now d p m) = nodeMap m \<and> nodes (dead_commit now d p m) = nodes m \<and>
   numNodes (dead_commit now d p m) = numNodes m \<and> nextPtr (dead_commit now d p m) = nextPtr m \<and>
   config (dead_commit now d p m) = config m \<and> leave (dead_commit now d p m) = leave m \<and>
   nodeTimers (dead_commit now d p m) = nodeTimers m \<and>
   incarnation (dead_commit now d p m) = incarnation m \<and>
   heap (dead_commit now d p m) =
     (heap m)(p := (heap m p)\<lparr> Incarnation := d_Incarnation d,
        State := (if d_Node d = d_From d then StateLeft else StateDead), StateChange := now \<rparr>)"
  by (simp add: dead_commit_def Let_def emit_def)

lemma deadNode_keeps:
  "nodeMap (deadNode now d m) = nodeMap m \<and> nodes (deadNode now d m) = nodes m \<and>
   numNodes (deadNode now d m) = numNodes m \<and> nextPtr (deadNode now d m) = nextPtr m \<and>
   config (deadNode now d m) = config m \<and> leave (deadNode now d m) = leave m \<and>
   (\<forall>q. nodeMap m (d_Node d) \<noteq> Some q \<longrightarrow> heap (deadNode now d m) q = heap m q) \<and>
   (\<forall>q. Name (heap (deadNode now d m) q) = Name (heap m q))"
  by (auto simp: deadNode_def Let_def refute_frame emit_def dead_commit_keeps hasLeft_def
      split: option.splits)

lemma timeoutFn_keeps:
  "nodeMap (timeoutFn now c m) = nodeMap m \<and> nodes (timeoutFn now c m) = nodes m \<and>
   numNodes (timeoutFn now c m) = numNodes m \<and> nextPtr (timeoutFn now c m) = nextPtr m \<and>
   config (timeoutFn now c m) = config m \<and>
   (\<forall>q. Name (heap (timeoutFn now c m) q) = Name (heap m q))"
  by (simp add: timeoutFn_def Let_def deadNode_keeps split: option.splits)

lemma length_shuffleNodes [simp]: "length (shuffleNodes swaps ns) = length ns"
  unfolding shuffleNodes_def
  by (induction swaps arbitrary: ns) (auto split: prod.splits)

lemma fold_delete_Some:
  "fold (\<lambda>p nm'. nm'(f p := None)) ps nm name = Some q \<Longrightarrow> nm name = Some q"
proof (induction ps arbitrary: nm)
  case Nil
  then show ?case by simp
next
  case (Cons a ps)
  from Cons.prems have "fold (\<lambda>p nm'. nm'(f p := None)) ps (nm(f a := None)) name = Some q"
    by (simp del: fun_upd_apply)
  then have "(nm(f a := None)) name = Some q" by (rule Cons.IH)
  then show ?case by (simp split: if_splits)
qed

lemma resetNodes_keeps:
  "numNodes (resetNodes now swaps m) = of_nat (length (nodes (resetNodes now swaps m))) \<and>
   heap (resetNodes now swaps m) = heap m \<and> nextPtr (resetNodes now swaps m) = nextPtr m \<and>
   config (resetNodes now swaps m) = config m \<and>
   (\<forall>name q. nodeMap (resetNodes now swaps m) name = Some q \<longrightarrow> nodeMap m name = Some q)"
  by (auto simp: resetNodes_def moveDeadNodes_def Let_def dest: fold_delete_Some)

lemma wf_initial: "wf (initial cfg awmax)"
  by (simp add: wf_def initial_def)

lemma reachable_wf: "reachable m \<Longrightarrow> wf m"
proof (induction rule: reachable.induct)
  case (reach_initial cfg awmax)
  show ?case by (rule wf_initial)
next
  case (reach_alive m now offset a ntf bootstrap m')
  then show ?case by (blast intro: aliveNode_wf)
next
  case (reach_suspect m st now s)
  then show ?case using suspectNode_keeps [of st now s m] by (simp add: wf_def)
next
  case (reach_dead m now d)
  then show ?case using deadNode_keeps [of now d m] by (simp add: wf_def)
next
  case (reach_reset m now swaps)
  then show ?case using resetNodes_keeps [of now swaps m] by (auto simp: wf_def)
next
  case (reach_timeout m now c)
  then show ?case using timeoutFn_keeps [of now c m] by (simp add: wf_def)
next
  case (reach_leave m)
  then show ?case by (simp add: wf_def)
qed

subsection \<open>The example member lists are reachable\<close>

lemmas ex_simps = ex_cfg_def ex_alive_def initial_def aliveNode_def alive_update_def alive_insert_def
  alive_vsn_wrong_def alive_delegate_rejects_def new_nodeState_def alive_notify_def hasLeft_def emit_def
  node_of_def Node.truncate_def Let_def newAwareness_def ex_a_def ex_ab_def ex_b_dead_def ex_b_left_def
  deadNode_def dead_commit_def DeadOrLeft_def

lemma reachable_ex_a: "reachable (ex_a ex_cfg)"
proof -
  have "aliveNode 1 0 (ex_alive ''a'' 1 [10, 0, 0, 1]) NoChan True (initial ex_cfg 8)
          = Inr (ex_a ex_cfg)"
    by (simp add: ex_simps)
  then show ?thesis by (rule reach_alive [OF reach_initial])
qed

lemma reachable_ex_ab: "reachable (ex_ab ex_cfg)"
proof -
  have "aliveNode 2 0 (ex_alive ''b'' 5 [10, 0, 0, 2]) NoChan False (ex_a ex_cfg)
          = Inr (ex_ab ex_cfg)"
    by (simp add: ex_simps)
  then show ?thesis by (rule reach_alive [OF reachable_ex_a])
qed

lemma reachable_ex_b_dead: "reachable (ex_b_dead ex_cfg)"
  unfolding ex_b_dead_def by (rule reach_dead [OF reachable_ex_ab])


subsection \<open>The node counter\<close>

text \<open>
  C1 (amended). In every reachable state, hence after any single call to \<open>aliveNode\<close>,
  \<open>suspectNode\<close>, \<open>deadNode\<close> or \<open>resetNodes\<close> from a reachable state, \<open>numNodes\<close> equals
  (as a \<open>uint32\<close>) the number of entries of the ordered node sequence, the Dead and Left
  entries that have not been reaped included.
\<close>

theorem numNodes_is_sequence_length:
  "reachable m \<Longrightarrow> numNodes m = of_nat (length (nodes m))"
proof (induction rule: reachable.induct)
  case (reach_initial cfg awmax)
  show ?case by (simp add: initial_def)
next
  case (reach_alive m now offset a ntf bootstrap m')
  then show ?case by (blast intro: aliveNode_count)
next
  case (reach_suspect m st now s)
  then show ?case using suspectNode_keeps [of st now s m] by simp
next
  case (reach_dead m now d)
  then show ?case using deadNode_keeps [of now d m] by simp
next
  case (reach_reset m now swaps)
  show ?case using resetNodes_keeps [of now swaps m] by simp
next
  case (reach_timeout m now c)
  then show ?case using timeoutFn_keeps [of now c m] by simp
next
  case (reach_leave m)
  then show ?case by simp
qed

text \<open>
  After \<open>b\<close> has been declared dead, both entries are still in the sequence and counted.
\<close>

theorem numNodes_is_sequence_length_witness:
  "reachable (ex_b_dead ex_cfg) \<and> numNodes (ex_b_dead ex_cfg) = 2 \<and>
   length (nodes (ex_b_dead ex_cfg)) = 2"
  using numNodes_is_sequence_length [OF reachable_ex_b_dead] reachable_ex_b_dead
  by (simp add: ex_simps)

text \<open>
  With \<open>a\<close> and \<open>b\<close> alive, \<open>deadNode\<close> for \<open>b\<close> leaves \<open>numNodes\<close> at 2, while only one
  entry of the sequence is neither Dead nor Left.
\<close>

theorem numNodes_live_count_counterexample:
  "reachable (ex_ab ex_cfg) \<and>
   ex_b_dead ex_cfg = deadNode 3 \<lparr> d_Incarnation = 5, d_Node = ''b'', d_From = ''a'' \<rparr> (ex_ab ex_cfg) \<and>
   numNodes (ex_b_dead ex_cfg) = 2 \<and> live_count (ex_b_dead ex_cfg) = 1"
  using reachable_ex_ab by (simp add: live_count_def ex_simps)

subsection \<open>Refutation\<close>

text \<open>
  C6 (amended). For every self node state and every accused incarnation other than the
  largest 32-bit value \<open>2^32 - 1\<close> (written \<open>- 1\<close>), after \<open>refute\<close> the node's stored
  incarnation is strictly greater than the accused one, it is the value of the
  incarnation counter, and the alive message broadcast carries it.
\<close>

theorem refute_beats_accusation:
  "accusedInc \<noteq> - 1 \<Longrightarrow>
   accusedInc < Incarnation (heap (refute me accusedInc m) me) \<and>
   incarnation (refute me accusedInc m) = Incarnation (heap (refute me accusedInc m) me) \<and>
   effects (refute me accusedInc m) =
     effects m @
     [Broadcast (KeyAddr (Addr (heap m me)))
        (AliveMsg (alive_of (Incarnation (heap (refute me accusedInc m) me))
                     (heap (refute me accusedInc m) me))) NoChan]"
  by (simp add: refute_frame refute_effects refute_inc_greater)

text \<open>
  Accused of incarnation 7 with the counter at 0, the local node moves to 8.
\<close>

theorem refute_beats_accusation_witness:
  "(7 :: u32) \<noteq> - 1 \<and>
   Incarnation (heap (refute 0 7 (ex_ab ex_cfg)) 0) = 8 \<and>
   (7 :: u32) < Incarnation (heap (refute 0 7 (ex_ab ex_cfg)) 0) \<and>
   incarnation (refute 0 7 (ex_ab ex_cfg)) = 8 \<and>
   last (effects (refute 0 7 (ex_ab ex_cfg))) =
     Broadcast (KeyAddr [10, 0, 0, 1])
       (AliveMsg (ex_alive ''a'' 8 [10, 0, 0, 1])) NoChan"
  using refute_beats_accusation [of 7 0 "ex_ab ex_cfg"]
  by (simp add: ex_simps refute_def nextIncarnation_def skipIncarnation_def alive_of_def)

text \<open>
  Accused of incarnation \<open>2^32 - 1\<close>, the local node moves to \<open>2^32 - 1 + 1 = 0\<close> and
  broadcasts an alive message with incarnation 0.
\<close>

theorem refute_wraps_counterexample:
  "nodeMap (ex_ab ex_cfg) ''a'' = Some 0 \<and>
   Incarnation (heap (refute 0 4294967295 (ex_ab ex_cfg)) 0) = 0 \<and>
   \<not> (4294967295 :: u32) < Incarnation (heap (refute 0 4294967295 (ex_ab ex_cfg)) 0) \<and>
   last (effects (refute 0 4294967295 (ex_ab ex_cfg))) =
     Broadcast (KeyAddr [10, 0, 0, 1])
       (AliveMsg (ex_alive ''a'' 0 [10, 0, 0, 1])) NoChan"
  by (simp add: ex_simps refute_def nextIncarnation_def skipIncarnation_def alive_of_def)

subsection \<open>The confirmation threshold\<close>

lemma sint_minus_two_i64:
  fixes m :: i64
  assumes "2 \<le> sint m"
  shows "sint (m - 2) = sint m - 2"
proof -
  have "sint m < 2 ^ 63" using sint_lt [of m] by simp
  with assms show ?thesis
    by (simp add: sint_word_ariths signed_take_bit_int_eq_self)
qed

lemma suspicion_k_nonneg:
  assumes "2 \<le>s SuspicionMult (config m)"
  shows "0 \<le>s suspicion_k m"
proof -
  have "2 \<le> sint (SuspicionMult (config m))" using assms by (simp add: word_sle_eq)
  then have "0 \<le> sint (SuspicionMult (config m) - 2)"
    by (simp add: sint_minus_two_i64)
  then show ?thesis
    by (simp add: suspicion_k_def Let_def word_sle_eq)
qed

text \<open>
  C3 (amended). For every suspect message that creates a new suspicion record (name
  known, incarnation not stale, no record yet, stored state Alive, target not self),
  \<open>suspectNode\<close> computes \<open>k = suspicion_mult - 2\<close>, without a lower bound of 0, then
  sets \<open>k = 0\<close> when \<open>num_nodes - 2 < k\<close>, and passes this \<open>k\<close> to the constructor
  together with \<open>min\<close> and \<open>max = suspicion_max_timeout_mult * min\<close>. The \<open>k\<close> passed
  is not negative when \<open>suspicion_mult \<ge> 2\<close>; whenever it is below 1, negative or not,
  the timer is started at \<open>min\<close>.
\<close>

theorem suspectNode_threshold:
  assumes "nodeMap m (su_Node s) = Some p"
    and "\<not> su_Incarnation s < Incarnation (heap m p)"
    and "nodeTimers m (su_Node s) = None"
    and "State (heap m p) = StateAlive"
    and "Name (heap m p) \<noteq> cfg_Name (config m)"
  shows "nodeTimers (suspectNode st now s m) (su_Node s) =
           Some (newSuspicion now (su_From s) (suspicion_k m)
                   (st (SuspicionMult (config m)) (ucast (numNodes m)) (ProbeInterval (config m)))
                   (SuspicionMaxTimeoutMult (config m) *
                      st (SuspicionMult (config m)) (ucast (numNodes m)) (ProbeInterval (config m)))
                   \<lparr> fn_Node = su_Node s, fn_changeTime = now, fn_k = suspicion_k m \<rparr>) \<and>
         suspicion_k m =
           (if ucast (numNodes m) - 2 <s SuspicionMult (config m) - 2
            then 0 else SuspicionMult (config m) - 2) \<and>
         (2 \<le>s SuspicionMult (config m) \<longrightarrow> 0 \<le>s suspicion_k m) \<and>
         (suspicion_k m <s 1 \<longrightarrow>
            map_option s_timer (nodeTimers (suspectNode st now s m) (su_Node s)) =
              Some (Pending (now + sint (st (SuspicionMult (config m)) (ucast (numNodes m))
                                           (ProbeInterval (config m))))))"
proof -
  have k: "suspicion_k (m\<lparr> effects := es, heap := h \<rparr>) = suspicion_k m" for es h
    by (simp add: suspicion_k_def estNumNodes_def)
  have "nodeTimers (suspectNode st now s m) (su_Node s) =
          Some (newSuspicion now (su_From s) (suspicion_k m)
                  (st (SuspicionMult (config m)) (ucast (numNodes m)) (ProbeInterval (config m)))
                  (SuspicionMaxTimeoutMult (config m) *
                     st (SuspicionMult (config m)) (ucast (numNodes m)) (ProbeInterval (config m)))
                  \<lparr> fn_Node = su_Node s, fn_changeTime = now, fn_k = suspicion_k m \<rparr>)"
    using assms by (simp add: suspectNode_def Let_def emit_def k estNumNodes_def)
  moreover have "suspicion_k m =
      (if ucast (numNodes m) - 2 <s SuspicionMult (config m) - 2
       then 0 else SuspicionMult (config m) - 2)"
    by (simp add: suspicion_k_def estNumNodes_def Let_def)
  moreover have "2 \<le>s SuspicionMult (config m) \<longrightarrow> 0 \<le>s suspicion_k m"
    by (simp add: suspicion_k_nonneg)
  ultimately show ?thesis by (simp add: newSuspicion_def)
qed

lemmas ex_suspect_simps = suspectNode_def suspicion_k_def estNumNodes_def newSuspicion_def
  ex_timeout_def word_sless_alt word_sle_eq

text \<open>
  Multiplier 4 and two nodes: \<open>k = 2\<close> is reset to 0, since \<open>2 - 2 < 2\<close>.
\<close>

theorem suspectNode_threshold_witness:
  "nodeMap (ex_ab ex_cfg) ''b'' = Some 1 \<and>
   \<not> (5 :: u32) < Incarnation (heap (ex_ab ex_cfg) 1) \<and>
   nodeTimers (ex_ab ex_cfg) ''b'' = None \<and>
   State (heap (ex_ab ex_cfg) 1) = StateAlive \<and>
   Name (heap (ex_ab ex_cfg) 1) \<noteq> cfg_Name (config (ex_ab ex_cfg)) \<and>
   (2 :: i64) \<le>s SuspicionMult (config (ex_ab ex_cfg)) \<and>
   suspicion_k (ex_ab ex_cfg) = 0 \<and>
   nodeTimers
     (suspectNode ex_timeout 40 \<lparr> su_Incarnation = 5, su_Node = ''b'', su_From = ''c'' \<rparr>
        (ex_ab ex_cfg)) ''b'' =
     Some (newSuspicion 40 ''c'' 0 4000 24000
             \<lparr> fn_Node = ''b'', fn_changeTime = 40, fn_k = 0 \<rparr>)"
  using suspectNode_threshold
    [of "ex_ab ex_cfg" "\<lparr> su_Incarnation = 5, su_Node = ''b'', su_From = ''c'' \<rparr>" 1
        ex_timeout 40]
  by (simp add: ex_simps ex_suspect_simps)

text \<open>
  Multiplier 1 and two nodes: \<open>k = -1\<close>, and \<open>2 - 2 < -1\<close> does not hold, so \<open>-1\<close> is
  what \<open>newSuspicion\<close> receives.
\<close>

theorem suspectNode_threshold_counterexample:
  "SuspicionMult (config (ex_ab (ex_cfg\<lparr> SuspicionMult := 1 \<rparr>))) = 1 \<and>
   numNodes (ex_ab (ex_cfg\<lparr> SuspicionMult := 1 \<rparr>)) = 2 \<and>
   nodeTimers
     (suspectNode ex_timeout 40 \<lparr> su_Incarnation = 5, su_Node = ''b'', su_From = ''c'' \<rparr>
        (ex_ab (ex_cfg\<lparr> SuspicionMult := 1 \<rparr>))) ''b'' =
     Some (newSuspicion 40 ''c'' (- 1) 1000 6000
             \<lparr> fn_Node = ''b'', fn_changeTime = 40, fn_k = - 1 \<rparr>) \<and>
   (- 1 :: i64) <s 0"
  by (simp add: ex_simps ex_suspect_simps)

subsection \<open>Address conflicts\<close>

text \<open>
  C4 (amended). For every alive message whose address (IP or port) differs from the
  stored entry of a known name: unless the stored state is Left, or Dead with
  \<open>dead_node_reclaim_time > 0\<close> and an elapsed time since the state change strictly
  greater than it, the message is dropped and the member list is left as it was, the
  stored record included; the conflict delegate is invoked, as the only effect, exactly
  when the message has passed the earlier checks (self has not left, version vector,
  alive delegate), the IP policy allows the new address and a conflict delegate is set.
  Hence a call that changes a stored record was made on a Left entry or on a Dead one
  past the reclaim time.
\<close>

theorem aliveNode_address_conflict:
  assumes "nodeMap m (a_Node a) = Some p"
    and "Addr (heap m p) \<noteq> a_Addr a \<or> Port (heap m p) \<noteq> a_Port a"
  shows "(\<not> (State (heap m p) = StateLeft \<or>
              (State (heap m p) = StateDead \<and> canReclaim (config m) now (heap m p))) \<longrightarrow>
            aliveNode now off a ntf b m =
              Inr (if conflict_reported m a
                   then emit (NotifyConflict (node_of (heap m p)) (conflict_other a)) m
                   else m)) \<and>
         (\<forall>m'. aliveNode now off a ntf b m = Inr m' \<and> heap m' \<noteq> heap m \<longrightarrow>
            State (heap m p) = StateLeft \<or>
            (State (heap m p) = StateDead \<and> 0 <s DeadNodeReclaimTime (config m) \<and>
             DeadNodeReclaimTime (config m) <s time_Since now (StateChange (heap m p))))"
proof -
  have A: "aliveNode now off a ntf b m =
              Inr (if conflict_reported m a
                   then emit (NotifyConflict (node_of (heap m p)) (conflict_other a)) m
                   else m)"
    if "\<not> (State (heap m p) = StateLeft \<or>
              (State (heap m p) = StateDead \<and> canReclaim (config m) now (heap m p)))"
    using assms that by (auto simp: aliveNode_def conflict_reported_def Let_def)
  have B: "State (heap m p) = StateLeft \<or>
            (State (heap m p) = StateDead \<and> canReclaim (config m) now (heap m p))"
    if "aliveNode now off a ntf b m = Inr m'" and "heap m' \<noteq> heap m" for m'
  proof (rule ccontr)
    assume n: "\<not> ?thesis"
    from A [OF n] that(1) have "heap m' = heap m"
      by (auto simp: emit_def split: if_splits)
    with that(2) show False by simp
  qed
  show ?thesis using A B by (auto simp: canReclaim_def)
qed

text \<open>
  \<open>b\<close> is alive at 10.0.0.2 and an alive message gives 10.0.0.3: the conflict delegate
  is called and nothing else changes. After \<open>b\<close> has left, the same message changes the
  member list.
\<close>

theorem aliveNode_address_conflict_witness:
  "nodeMap (ex_ab ex_cfg) ''b'' = Some 1 \<and>
   Addr (heap (ex_ab ex_cfg) 1) \<noteq> [10, 0, 0, 3] \<and>
   State (heap (ex_ab ex_cfg) 1) = StateAlive \<and>
   conflict_reported (ex_ab ex_cfg) (ex_alive ''b'' 6 [10, 0, 0, 3]) \<and>
   aliveNode 30 0 (ex_alive ''b'' 6 [10, 0, 0, 3]) NoChan False (ex_ab ex_cfg) =
     Inr (emit (NotifyConflict (node_of (heap (ex_ab ex_cfg) 1))
                  (conflict_other (ex_alive ''b'' 6 [10, 0, 0, 3]))) (ex_ab ex_cfg)) \<and>
   aliveNode 30 0 (ex_alive ''b'' 6 [10, 0, 0, 3]) NoChan False (ex_b_left ex_cfg) \<noteq>
     Inr (ex_b_left ex_cfg) \<and>
   State (heap (ex_b_left ex_cfg) 1) = StateLeft"
  using aliveNode_address_conflict
    [of "ex_ab ex_cfg" "ex_alive ''b'' 6 [10, 0, 0, 3]" 1 30 0 NoChan False]
    aliveNode_address_conflict
    [of "ex_b_left ex_cfg" "ex_alive ''b'' 6 [10, 0, 0, 3]" 1 30 0 NoChan False]
  by (simp add: ex_simps conflict_reported_def conflict_other_def canReclaim_def)

text \<open>
  \<open>b\<close> is alive at 10.0.0.2 and an alive message gives 10.0.0.9, which the IP policy
  refuses: the message is dropped and the conflict delegate, though set, is not called.
\<close>

theorem aliveNode_address_conflict_counterexample:
  "Conflict (config (ex_ab ex_cfg)) \<and>
   nodeMap (ex_ab ex_cfg) ''b'' = Some 1 \<and>
   Addr (heap (ex_ab ex_cfg) 1) \<noteq> [10, 0, 0, 9] \<and>
   State (heap (ex_ab ex_cfg) 1) = StateAlive \<and>
   aliveNode 30 0 (ex_alive ''b'' 6 [10, 0, 0, 9]) NoChan False (ex_ab ex_cfg) =
     Inr (ex_ab ex_cfg)"
  by (simp add: ex_simps)

subsection \<open>Protocol versions\<close>

lemma widen_fields:
  "maxpmin (widen a b c d x) = max (maxpmin x) a"
  "minpmax (widen a b c d x) = min (minpmax x) b"
  "maxdmin (widen a b c d x) = max (maxdmin x) c"
  "mindmax (widen a b c d x) = min (mindmax x) d"
  by (auto simp: widen_def max_def min_def)

text \<open>Folding a list of ranges into the bounds, as the first two loops do.\<close>

lemma remote_bounds_foldl:
  assumes "\<forall>rn \<in> set remote. p_Vsn rn = [] \<or> 6 \<le> length (p_Vsn rn)"
  shows "remote_bounds remote b =
           Inr (foldl (\<lambda>b (pmin, pmax, dmin, dmax). widen pmin pmax dmin dmax b) b
                  (map (\<lambda>rn. (p_Vsn rn ! 0, p_Vsn rn ! 1, p_Vsn rn ! 3, p_Vsn rn ! 4))
                     (filter (\<lambda>rn. p_State rn = StateAlive \<and> p_Vsn rn \<noteq> []) remote)))"
  using assms
proof (induction remote arbitrary: b)
  case Nil
  then show ?case by simp
next
  case (Cons rn rs)
  then have "p_Vsn rn = [] \<or> 6 \<le> length (p_Vsn rn)" by simp
  then show ?case using Cons by auto
qed

lemma local_bounds_foldl:
  "local_bounds h ps b =
     foldl (\<lambda>b (pmin, pmax, dmin, dmax). widen pmin pmax dmin dmax b) b
       (map (\<lambda>p. (PMin (h p), PMax (h p), DMin (h p), DMax (h p)))
          (filter (\<lambda>p. State (h p) = StateAlive) ps))"
  by (induction ps arbitrary: b) auto

lemma Max_cons2:
  fixes x :: "'a::linorder"
  shows "Max (set (x # y # xs)) = Max (set (max x y # xs))"
proof (cases "set xs = {}")
  case True
  then show ?thesis by simp
next
  case False
  then have "Max (insert x (insert y (set xs))) = max x (max y (Max (set xs)))"
    by simp
  also have "\<dots> = max (max x y) (Max (set xs))" by (simp add: max.assoc)
  also have "\<dots> = Max (insert (max x y) (set xs))" using False by simp
  finally show ?thesis by simp
qed

lemma Min_cons2:
  fixes x :: "'a::linorder"
  shows "Min (set (x # y # xs)) = Min (set (min x y # xs))"
proof (cases "set xs = {}")
  case True
  then show ?thesis by simp
next
  case False
  then have "Min (insert x (insert y (set xs))) = min x (min y (Min (set xs)))"
    by simp
  also have "\<dots> = min (min x y) (Min (set xs))" by (simp add: min.assoc)
  also have "\<dots> = Min (insert (min x y) (set xs))" using False by simp
  finally show ?thesis by simp
qed

lemma foldl_widen_range_bounds:
  "foldl (\<lambda>b (pmin, pmax, dmin, dmax). widen pmin pmax dmin dmax b) b rs =
     \<lparr> maxpmin = Max (set (maxpmin b # map (\<lambda>(pmin, pmax, dmin, dmax). pmin) rs)),
       minpmax = Min (set (minpmax b # map (\<lambda>(pmin, pmax, dmin, dmax). pmax) rs)),
       maxdmin = Max (set (maxdmin b # map (\<lambda>(pmin, pmax, dmin, dmax). dmin) rs)),
       mindmax = Min (set (mindmax b # map (\<lambda>(pmin, pmax, dmin, dmax). dmax) rs)) \<rparr>"
proof (induction rs arbitrary: b)
  case Nil
  show ?case by simp
next
  case (Cons r rs)
  obtain pmin pmax dmin dmax where r: "r = (pmin, pmax, dmin, dmax)" by (cases r)
  have "foldl (\<lambda>b (pmin, pmax, dmin, dmax). widen pmin pmax dmin dmax b) b (r # rs) =
        foldl (\<lambda>b (pmin, pmax, dmin, dmax). widen pmin pmax dmin dmax b)
          (widen pmin pmax dmin dmax b) rs"
    by (simp add: r)
  also note Cons.IH [of "widen pmin pmax dmin dmax b"]
  finally show ?case
    by (simp only: widen_fields r list.map prod.case Max_cons2 Min_cons2)
qed

lemma check_cur_None: "check_cur name pc dc b = None \<longleftrightarrow> \<not> outside b (pc, dc)"
  by (auto simp: check_cur_def outside_def)

lemma check_remote_outside:
  assumes "\<forall>rn \<in> set remote. p_Vsn rn = [] \<or> 6 \<le> length (p_Vsn rn)"
  shows "\<exists>r. check_remote remote b = Inr r \<and>
           (r = None \<longleftrightarrow>
              (\<forall>rn \<in> set remote.
                 \<not> outside b (if p_Vsn rn = [] then (0, 0) else (p_Vsn rn ! 2, p_Vsn rn ! 5))))"
  using assms
proof (induction remote)
  case Nil
  then show ?case by simp
next
  case (Cons rn rs)
  then have wf: "p_Vsn rn = [] \<or> 6 \<le> length (p_Vsn rn)" by simp
  from Cons obtain r where r: "check_remote rs b = Inr r"
    "r = None \<longleftrightarrow> (\<forall>rn \<in> set rs.
        \<not> outside b (if p_Vsn rn = [] then (0, 0) else (p_Vsn rn ! 2, p_Vsn rn ! 5)))"
    by auto
  show ?case
  proof (cases "p_Vsn rn = []")
    case True
    then show ?thesis using r check_cur_None [of "p_Name rn" 0 0 b]
      by (cases "check_cur (p_Name rn) 0 0 b") auto
  next
    case False
    then have "6 \<le> length (p_Vsn rn)" using wf by simp
    then show ?thesis
      using r False check_cur_None [of "p_Name rn" "p_Vsn rn ! 2" "p_Vsn rn ! 5" b]
      by (cases "check_cur (p_Name rn) (p_Vsn rn ! 2) (p_Vsn rn ! 5) b") auto
  qed
qed

lemma check_local_outside:
  "check_local h ps b = None \<longleftrightarrow> (\<forall>p \<in> set ps. \<not> outside b (PCur (h p), DCur (h p)))"
proof (induction ps)
  case Nil
  show ?case by simp
next
  case (Cons p ps)
  then show ?case
    using check_cur_None [of "Name (h p)" "PCur (h p)" "DCur (h p)" b]
    by (cases "check_cur (Name (h p)) (PCur (h p)) (DCur (h p)) b") auto
qed

lemma verify_bounds:
  assumes "\<forall>rn \<in> set remote. p_Vsn rn = [] \<or> 6 \<le> length (p_Vsn rn)"
  shows "\<exists>b0. remote_bounds remote bounds0 = Inr b0 \<and>
           local_bounds (heap m) (nodes m) b0 = range_bounds (alive_ranges m remote)"
proof -
  let ?W = "\<lambda>b (pmin, pmax, dmin, dmax). widen pmin pmax dmin dmax b"
  let ?R = "map (\<lambda>rn. (p_Vsn rn ! 0, p_Vsn rn ! 1, p_Vsn rn ! 3, p_Vsn rn ! 4))
              (filter (\<lambda>rn. p_State rn = StateAlive \<and> p_Vsn rn \<noteq> []) remote)"
  let ?L = "map (\<lambda>p. (PMin (heap m p), PMax (heap m p), DMin (heap m p), DMax (heap m p)))
              (filter (\<lambda>p. State (heap m p) = StateAlive) (nodes m))"
  have 1: "remote_bounds remote bounds0 = Inr (foldl ?W bounds0 ?R)"
    by (rule remote_bounds_foldl [OF assms])
  have "local_bounds (heap m) (nodes m) (foldl ?W bounds0 ?R) = foldl ?W bounds0 (?R @ ?L)"
    by (simp only: local_bounds_foldl foldl_append)
  also have "\<dots> = range_bounds (?R @ ?L)"
    by (simp only: foldl_widen_range_bounds range_bounds_def)
       (simp add: bounds0_def)
  finally show ?thesis using 1 by (simp add: alive_ranges_def)
qed

text \<open>
  C5 (amended). On a remote snapshot whose version vectors are empty or have all six
  entries, \<open>verifyProtocol\<close> returns an error if and only if some node of the remote
  snapshot or of the local table, alive or not, has a current protocol version outside
  \<open>[maxpmin, minpmax]\<close> or a current delegate version outside \<open>[maxdmin, mindmax]\<close>, and
  nil otherwise. The bounds are the maximum of the minimum versions and the minimum of
  the maximum versions over the alive nodes of both (0 and 255 at the least); a remote
  entry without a version vector is left out of the bounds and speaks version 0.
\<close>

theorem verifyProtocol_rejects:
  assumes "\<forall>rn \<in> set remote. p_Vsn rn = [] \<or> 6 \<le> length (p_Vsn rn)"
  shows "((\<exists>e. verifyProtocol m remote = Inr (Some e)) \<longleftrightarrow>
            (\<exists>c \<in> set (all_current m remote).
               outside (range_bounds (alive_ranges m remote)) c)) \<and>
         (verifyProtocol m remote = Inr None \<longleftrightarrow>
            (\<forall>c \<in> set (all_current m remote).
               \<not> outside (range_bounds (alive_ranges m remote)) c))"
proof -
  let ?b = "range_bounds (alive_ranges m remote)"
  obtain b0 where b0: "remote_bounds remote bounds0 = Inr b0"
    "local_bounds (heap m) (nodes m) b0 = ?b"
    using verify_bounds [OF assms] by blast
  obtain r where r: "check_remote remote ?b = Inr r"
    "r = None \<longleftrightarrow> (\<forall>rn \<in> set remote.
        \<not> outside ?b (if p_Vsn rn = [] then (0, 0) else (p_Vsn rn ! 2, p_Vsn rn ! 5)))"
    using check_remote_outside [OF assms] by blast
  have v: "verifyProtocol m remote =
             (case r of Some e \<Rightarrow> Inr (Some e)
              | None \<Rightarrow> Inr (check_local (heap m) (nodes m) ?b))"
    by (simp add: verifyProtocol_def b0 r(1) Let_def)
  have all: "(\<forall>c \<in> set (all_current m remote). \<not> outside ?b c) \<longleftrightarrow>
             r = None \<and> check_local (heap m) (nodes m) ?b = None"
    by (auto simp: all_current_def r(2) check_local_outside)
  show ?thesis
  proof (cases r)
    case None
    then show ?thesis using v all
      by (cases "check_local (heap m) (nodes m) ?b") auto
  next
    case (Some e)
    then show ?thesis using v all by auto
  qed
qed

lemmas ex_verify_simps = verifyProtocol_def bounds0_def widen_def check_cur_def
  all_current_def alive_current_def alive_ranges_def range_bounds_def outside_def

text \<open>
  An alive remote node \<open>c\<close> that understands protocols 2 to 4 narrows the interval to
  \<open>[2, 4]\<close>: speaking 3 it is accepted along with \<open>a\<close> and \<open>b\<close>, speaking 5 it is
  rejected.
\<close>

theorem verifyProtocol_rejects_witness:
  "6 \<le> length (p_Vsn \<lparr> p_Name = ''c'', p_Addr = [10, 0, 0, 3], p_Port = 7946, p_Meta = [],
                     p_Incarnation = 1, p_State = StateAlive, p_Vsn = [2, 4, 3, 0, 0, 0] \<rparr>) \<and>
   range_bounds (alive_ranges (ex_ab ex_cfg)
     [\<lparr> p_Name = ''c'', p_Addr = [10, 0, 0, 3], p_Port = 7946, p_Meta = [],
        p_Incarnation = 1, p_State = StateAlive, p_Vsn = [2, 4, 3, 0, 0, 0] \<rparr>])
     = \<lparr> maxpmin = 2, minpmax = 4, maxdmin = 0, mindmax = 0 \<rparr> \<and>
   verifyProtocol (ex_ab ex_cfg)
     [\<lparr> p_Name = ''c'', p_Addr = [10, 0, 0, 3], p_Port = 7946, p_Meta = [],
        p_Incarnation = 1, p_State = StateAlive, p_Vsn = [2, 4, 3, 0, 0, 0] \<rparr>] = Inr None \<and>
   (\<exists>e. verifyProtocol (ex_ab ex_cfg)
     [\<lparr> p_Name = ''c'', p_Addr = [10, 0, 0, 3], p_Port = 7946, p_Meta = [],
        p_Incarnation = 1, p_State = StateAlive, p_Vsn = [2, 4, 5, 0, 0, 0] \<rparr>] = Inr (Some e))"
  using verifyProtocol_rejects
    [of "[\<lparr> p_Name = ''c'', p_Addr = [10, 0, 0, 3], p_Port = 7946, p_Meta = [],
            p_Incarnation = 1, p_State = StateAlive, p_Vsn = [2, 4, 3, 0, 0, 0] \<rparr>]"
        "ex_ab ex_cfg"]
    verifyProtocol_rejects
    [of "[\<lparr> p_Name = ''c'', p_Addr = [10, 0, 0, 3], p_Port = 7946, p_Meta = [],
            p_Incarnation = 1, p_State = StateAlive, p_Vsn = [2, 4, 5, 0, 0, 0] \<rparr>]"
        "ex_ab ex_cfg"]
  by (simp add: ex_simps ex_verify_simps)

text \<open>
  A Dead remote node \<open>c\<close> speaking protocol 7 is rejected against \<open>[1, 5]\<close>, although
  the alive nodes \<open>a\<close> and \<open>b\<close> both speak 2.
\<close>

theorem verifyProtocol_rejects_counterexample:
  "verifyProtocol (ex_ab ex_cfg)
     [\<lparr> p_Name = ''c'', p_Addr = [10, 0, 0, 3], p_Port = 7946, p_Meta = [],
        p_Incarnation = 1, p_State = StateDead, p_Vsn = [6, 9, 7, 0, 0, 0] \<rparr>]
     = Inr (Some (ProtocolIncompatible ''c'' 7 1 5)) \<and>
   range_bounds (alive_ranges (ex_ab ex_cfg)
     [\<lparr> p_Name = ''c'', p_Addr = [10, 0, 0, 3], p_Port = 7946, p_Meta = [],
        p_Incarnation = 1, p_State = StateDead, p_Vsn = [6, 9, 7, 0, 0, 0] \<rparr>])
     = \<lparr> maxpmin = 1, minpmax = 5, maxdmin = 0, mindmax = 0 \<rparr> \<and>
   alive_current (ex_ab ex_cfg)
     [\<lparr> p_Name = ''c'', p_Addr = [10, 0, 0, 3], p_Port = 7946, p_Meta = [],
        p_Incarnation = 1, p_State = StateDead, p_Vsn = [6, 9, 7, 0, 0, 0] \<rparr>]
     = [(2, 0), (2, 0)] \<and>
   \<not> outside \<lparr> maxpmin = 1, minpmax = 5, maxdmin = 0, mindmax = 0 \<rparr> (2, 0)"
  by (simp add: ex_simps ex_verify_simps)

subsection \<open>Incarnations\<close>














subsection \<open>Repeated alive messages\<close>

text \<open>After an update of another node's entry, the entry agrees with the message.\<close>

lemma alive_update_settles:
  assumes "alive_update now a ntf b p upd m = Inr m'"
    and "Name (heap m p) \<noteq> cfg_Name (config m)"
    and "upd \<or> (Addr (heap m p) = a_Addr a \<and> Port (heap m p) = a_Port a)"
  shows "Addr (heap m' p) = a_Addr a \<and> Port (heap m' p) = a_Port a \<and>
         a_Incarnation a \<le> Incarnation (heap m' p)"
  using assms
  by (auto simp: alive_update_def Let_def alive_notify_frame emit_def split: if_splits)

text \<open>An alive message about another node that the entry already agrees with is dropped.\<close>

lemma aliveNode_settled:
  assumes "nodeMap m (a_Node a) = Some p"
    and "Addr (heap m p) = a_Addr a" and "Port (heap m p) = a_Port a"
    and "a_Incarnation a \<le> Incarnation (heap m p)"
    and "Name (heap m p) \<noteq> cfg_Name (config m)"
  shows "aliveNode now off a ntf b m = Inr m"
  using assms by (simp add: aliveNode_def alive_update_def Let_def)

text \<open>A reclaiming update of another node's entry leaves it Alive.\<close>

lemma alive_update_reclaimed:
  assumes "alive_update now a ntf b p True m = Inr m'"
    and "Name (heap m p) \<noteq> cfg_Name (config m)"
  shows "State (heap m' p) = StateAlive"
  using assms
  by (auto simp: alive_update_def Let_def alive_notify_frame emit_def split: if_splits)

text \<open>
  C9 (amended). For every alive message \<open>a\<close> about a non-local node, from a reachable
  state: once \<open>aliveNode(a, nil, false)\<close> has returned, a second call with the same
  message returns and leaves the member list as the first call left it (node map,
  ordered sequence, entries, \<open>num_nodes\<close> and all else but the effects logged), in
  every case but one, in which it does not: the entry stored for the name before the
  first call is Dead at another address (IP or port), the message passes the version and
  alive-delegate checks and the IP policy, and the reclaim test on that entry
  (\<open>DeadNodeReclaimTime > 0\<close> and time since the state change \<open>> DeadNodeReclaimTime\<close>)
  fails at the clock reading of the first call and holds at that of the second.
\<close>

theorem aliveNode_twice:
  assumes "reachable m"
    and "a_Node a \<noteq> cfg_Name (config m)"
    and "aliveNode t1 off1 a NoChan False m = Inr m1"
  shows "(\<exists>m2. aliveNode t2 off2 a NoChan False m1 = Inr m2 \<and> m2 = m1\<lparr> effects := effects m2 \<rparr>)
         \<longleftrightarrow>
         \<not> (\<exists>p. nodeMap m (a_Node a) = Some p \<and>
                State (heap m p) = StateDead \<and>
                (Addr (heap m p) \<noteq> a_Addr a \<or> Port (heap m p) \<noteq> a_Port a) \<and>
                \<not> alive_vsn_wrong a \<and> \<not> alive_delegate_rejects (config m) a \<and>
                IPAllowed (config m) (a_Addr a) \<and>
                \<not> canReclaim (config m) t1 (heap m p) \<and>
                canReclaim (config m) t2 (heap m p))"
  (is "?noop \<longleftrightarrow> \<not> ?turns")
proof -
  have wf: "wf m" by (rule reachable_wf [OF assms(1)])
  have same: "?noop" if "aliveNode t2 off2 a NoChan False m1 = Inr m1"
    using that by simp
  have settled: "aliveNode t2 off2 a NoChan False m1 = Inr m1"
    if u: "alive_update t1 a NoChan False p upd m0 = Inr m1"
      and n: "nodeMap m0 (a_Node a) = Some p" "Name (heap m0 p) = a_Node a"
        "config m0 = config m"
      and ad: "upd \<or> (Addr (heap m0 p) = a_Addr a \<and> Port (heap m0 p) = a_Port a)"
    for p upd m0
  proof -
    note k = alive_update_keeps [OF u]
    have nl: "Name (heap m0 p) \<noteq> cfg_Name (config m0)" using n assms(2) by simp
    note s = alive_update_settles [OF u nl ad]
    show ?thesis
      using k s n nl by (intro aliveNode_settled [of m1 a p]) simp_all
  qed
  show ?thesis
  proof (cases "(hasLeft m \<and> a_Node a = cfg_Name (config m)) \<or> alive_vsn_wrong a \<or>
                alive_delegate_rejects (config m) a")
    case True
    then have "m1 = m" using assms(3) by (auto simp: aliveNode_def split: if_splits)
    moreover have "aliveNode t2 off2 a NoChan False m = Inr m"
      using True by (auto simp: aliveNode_def split: if_splits)
    ultimately have "?noop" by (intro same) simp
    moreover have "\<not> ?turns" using True assms(2) by auto
    ultimately show ?thesis by simp
  next
    case pass: False
    show ?thesis
    proof (cases "nodeMap m (a_Node a)")
      case None
      have nt: "\<not> ?turns" using None by simp
      show ?thesis
      proof (cases "IPAllowed (config m) (a_Addr a)")
        case False
        then have "m1 = m" using assms(3) pass None by (auto simp: aliveNode_def)
        moreover have "aliveNode t2 off2 a NoChan False m = Inr m"
          using False pass None by (auto simp: aliveNode_def)
        ultimately have "?noop" by (intro same) simp
        then show ?thesis using nt by simp
      next
        case True
        then have u: "alive_update t1 a NoChan False (nextPtr m) False (alive_insert off1 a m) = Inr m1"
          using assms(3) pass None by (auto simp: aliveNode_def split: if_splits)
        have "?noop"
          by (intro same settled [OF u])
             (simp_all add: alive_insert_frame new_nodeState_fields)
        then show ?thesis using nt by simp
      qed
    next
      case (Some p)
      have nm: "Name (heap m p) = a_Node a" using wf Some by (auto simp: wf_def)
      show ?thesis
      proof (cases "Addr (heap m p) \<noteq> a_Addr a \<or> Port (heap m p) \<noteq> a_Port a")
        case False
        then have u: "alive_update t1 a NoChan False p False m = Inr m1"
          using assms(3) pass Some by (auto simp: aliveNode_def Let_def)
        have "?noop"
          using False by (intro same settled [OF u Some nm]) simp_all
        moreover have "\<not> ?turns" using False Some by auto
        ultimately show ?thesis by simp
      next
        case differs: True
        show ?thesis
        proof (cases "IPAllowed (config m) (a_Addr a)")
          case False
          then have "m1 = m" using assms(3) pass Some differs
            by (auto simp: aliveNode_def Let_def)
          moreover have "aliveNode t2 off2 a NoChan False m = Inr m"
            using False pass Some differs by (auto simp: aliveNode_def Let_def)
          ultimately have "?noop" by (intro same) simp
          moreover have "\<not> ?turns" using False by simp
          ultimately show ?thesis by simp
        next
          case True
          show ?thesis
          proof (cases "State (heap m p) = StateLeft \<or>
                        (State (heap m p) = StateDead \<and> canReclaim (config m) t1 (heap m p))")
            case reclaim: True
            then have u: "alive_update t1 a NoChan False p True m = Inr m1"
              using assms(3) pass Some differs True by (auto simp: aliveNode_def Let_def)
            have "?noop"
              by (intro same settled [OF u Some nm]) simp_all
            moreover have "\<not> ?turns" using reclaim Some by auto
            ultimately show ?thesis by simp
          next
            case False
            then have 1: "m1 = (if Conflict (config m)
                                then emit (NotifyConflict (node_of (heap m p)) (conflict_other a)) m
                                else m)"
              using assms(3) pass Some differs True by (auto simp: aliveNode_def Let_def)
            have same1: "heap m1 = heap m" "nodeMap m1 = nodeMap m" "config m1 = config m"
              "hasLeft m1 = hasLeft m"
              by (simp_all add: 1 emit_def hasLeft_def)
            show ?thesis
            proof (cases "State (heap m p) = StateDead \<and> canReclaim (config m) t2 (heap m p)")
              case stay: False
              have "aliveNode t2 off2 a NoChan False m1 =
                      Inr (if Conflict (config m)
                           then emit (NotifyConflict (node_of (heap m p)) (conflict_other a)) m1
                           else m1)"
                using False stay pass Some differs True same1
                by (auto simp: aliveNode_def Let_def)
              then have "?noop" by (auto simp: emit_def)
              moreover have "\<not> ?turns" using stay Some by auto
              ultimately show ?thesis by simp
            next
              case turn: True
              have t: "?turns" using turn False pass Some differs True by auto
              have call: "aliveNode t2 off2 a NoChan False m1 =
                            alive_update t2 a NoChan False p True m1"
                using turn pass Some differs True same1
                by (auto simp: aliveNode_def Let_def)
              have "\<not> ?noop"
              proof
                assume "?noop"
                then obtain m2 where r: "aliveNode t2 off2 a NoChan False m1 = Inr m2"
                  and e: "m2 = m1\<lparr> effects := effects m2 \<rparr>" by blast
                have "State (heap m2 p) = StateAlive"
                  using r nm assms(2) same1 unfolding call
                  by (intro alive_update_reclaimed [of t2 a NoChan False p m1 m2]) simp_all
                moreover have "heap m2 = heap (m1\<lparr> effects := effects m2 \<rparr>)"
                  by (rule arg_cong [OF e])
                then have "heap m2 = heap m" using same1 by simp
                ultimately show False using turn by simp
              qed
              then show ?thesis using t by simp
            qed
          qed
        qed
      qed
    qed
  qed
qed

text \<open>
  \<open>b\<close> is Alive and the message, from the same address, raises its incarnation to 6 at
  time 5: the second call, at time 20, changes nothing. \<open>b\<close> is Dead since time 3, the
  reclaim time is 10 and the message comes from a new address at times 5 and 8: a
  conflict both times, and the second call changes nothing.
\<close>

theorem aliveNode_twice_witness:
  "reachable (ex_ab ex_cfg) \<and>
   a_Node (ex_alive ''b'' 6 [10, 0, 0, 2]) \<noteq> cfg_Name (config (ex_ab ex_cfg)) \<and>
   State (heap (ex_ab ex_cfg) 1) = StateAlive \<and>
   (case aliveNode 5 0 (ex_alive ''b'' 6 [10, 0, 0, 2]) NoChan False (ex_ab ex_cfg) of
      Inl x \<Rightarrow> False
    | Inr m1 \<Rightarrow>
        Incarnation (heap m1 1) = 6 \<and>
        (\<exists>m2. aliveNode 20 0 (ex_alive ''b'' 6 [10, 0, 0, 2]) NoChan False m1 = Inr m2 \<and>
              m2 = m1\<lparr> effects := effects m2 \<rparr>)) \<and>
   reachable (ex_b_dead ex_cfg) \<and>
   State (heap (ex_b_dead ex_cfg) 1) = StateDead \<and>
   canReclaim (config (ex_b_dead ex_cfg)) 5 (heap (ex_b_dead ex_cfg) 1) = False \<and>
   canReclaim (config (ex_b_dead ex_cfg)) 8 (heap (ex_b_dead ex_cfg) 1) = False \<and>
   (case aliveNode 5 0 (ex_alive ''b'' 6 [10, 0, 0, 3]) NoChan False (ex_b_dead ex_cfg) of
      Inl x \<Rightarrow> False
    | Inr m1 \<Rightarrow>
        heap m1 = heap (ex_b_dead ex_cfg) \<and>
        (\<exists>m2. aliveNode 8 0 (ex_alive ''b'' 6 [10, 0, 0, 3]) NoChan False m1 = Inr m2 \<and>
              m2 = m1\<lparr> effects := effects m2 \<rparr>))"
proof -
  let ?a = "ex_alive ''b'' 6 [10, 0, 0, 2]"
  let ?c = "ex_alive ''b'' 6 [10, 0, 0, 3]"
  have nl: "a_Node ?a \<noteq> cfg_Name (config (ex_ab ex_cfg))"
    by (simp add: ex_simps)
  have al: "State (heap (ex_ab ex_cfg) 1) = StateAlive"
    by (simp add: ex_simps)
  obtain m1 where r: "aliveNode 5 0 ?a NoChan False (ex_ab ex_cfg) = Inr m1"
    and i: "Incarnation (heap m1 1) = 6"
    by (simp add: ex_simps)
  have "(\<exists>m2. aliveNode 20 0 ?a NoChan False m1 = Inr m2 \<and> m2 = m1\<lparr> effects := effects m2 \<rparr>)
        \<longleftrightarrow>
        \<not> (\<exists>p. nodeMap (ex_ab ex_cfg) (a_Node ?a) = Some p \<and>
               State (heap (ex_ab ex_cfg) p) = StateDead \<and>
               (Addr (heap (ex_ab ex_cfg) p) \<noteq> a_Addr ?a \<or>
                Port (heap (ex_ab ex_cfg) p) \<noteq> a_Port ?a) \<and>
               \<not> alive_vsn_wrong ?a \<and> \<not> alive_delegate_rejects (config (ex_ab ex_cfg)) ?a \<and>
               IPAllowed (config (ex_ab ex_cfg)) (a_Addr ?a) \<and>
               \<not> canReclaim (config (ex_ab ex_cfg)) 5 (heap (ex_ab ex_cfg) p) \<and>
               canReclaim (config (ex_ab ex_cfg)) 20 (heap (ex_ab ex_cfg) p))"
    by (rule aliveNode_twice [OF reachable_ex_ab nl r])
  moreover have "nodeMap (ex_ab ex_cfg) (a_Node ?a) = Some 1"
    by (simp add: ex_simps)
  ultimately have one:
    "\<exists>m2. aliveNode 20 0 ?a NoChan False m1 = Inr m2 \<and> m2 = m1\<lparr> effects := effects m2 \<rparr>"
    using al by simp
  have nl': "a_Node ?c \<noteq> cfg_Name (config (ex_b_dead ex_cfg))"
    by (simp add: ex_simps)
  have cr: "canReclaim (config (ex_b_dead ex_cfg)) 5 (heap (ex_b_dead ex_cfg) 1) = False"
    "canReclaim (config (ex_b_dead ex_cfg)) 8 (heap (ex_b_dead ex_cfg) 1) = False"
    "State (heap (ex_b_dead ex_cfg) 1) = StateDead"
    "nodeMap (ex_b_dead ex_cfg) (a_Node ?c) = Some 1"
    by (simp_all add: ex_simps canReclaim_def time_Since_def time_Sub_def word_sless_alt)
  obtain m1' where r': "aliveNode 5 0 ?c NoChan False (ex_b_dead ex_cfg) = Inr m1'"
    and h': "heap m1' = heap (ex_b_dead ex_cfg)"
    by (simp add: ex_simps canReclaim_def time_Since_def time_Sub_def word_sless_alt)
  have "(\<exists>m2. aliveNode 8 0 ?c NoChan False m1' = Inr m2 \<and> m2 = m1'\<lparr> effects := effects m2 \<rparr>)
        \<longleftrightarrow>
        \<not> (\<exists>p. nodeMap (ex_b_dead ex_cfg) (a_Node ?c) = Some p \<and>
               State (heap (ex_b_dead ex_cfg) p) = StateDead \<and>
               (Addr (heap (ex_b_dead ex_cfg) p) \<noteq> a_Addr ?c \<or>
                Port (heap (ex_b_dead ex_cfg) p) \<noteq> a_Port ?c) \<and>
               \<not> alive_vsn_wrong ?c \<and>
               \<not> alive_delegate_rejects (config (ex_b_dead ex_cfg)) ?c \<and>
               IPAllowed (config (ex_b_dead ex_cfg)) (a_Addr ?c) \<and>
               \<not> canReclaim (config (ex_b_dead ex_cfg)) 5 (heap (ex_b_dead ex_cfg) p) \<and>
               canReclaim (config (ex_b_dead ex_cfg)) 8 (heap (ex_b_dead ex_cfg) p))"
    by (rule aliveNode_twice [OF reachable_ex_b_dead nl' r'])
  then have two:
    "\<exists>m2. aliveNode 8 0 ?c NoChan False m1' = Inr m2 \<and> m2 = m1'\<lparr> effects := effects m2 \<rparr>"
    using cr by simp
  show ?thesis
    using reachable_ex_ab reachable_ex_b_dead nl al r i one cr r' h' two by simp
qed

text \<open>
  \<open>b\<close> is Dead since time 3 and the reclaim time is 10: an alive message from a new
  address is dropped at time 5 and accepted at time 20.
\<close>

theorem aliveNode_twice_counterexample:
  "reachable (ex_b_dead ex_cfg) \<and>
   State (heap (ex_b_dead ex_cfg) 1) = StateDead \<and>
   StateChange (heap (ex_b_dead ex_cfg) 1) = 3 \<and>
   DeadNodeReclaimTime (config (ex_b_dead ex_cfg)) = 10 \<and>
   (case aliveNode 5 0 (ex_alive ''b'' 6 [10, 0, 0, 3]) NoChan False (ex_b_dead ex_cfg) of
      Inl x \<Rightarrow> False
    | Inr m1 \<Rightarrow>
        heap m1 = heap (ex_b_dead ex_cfg) \<and>
        (case aliveNode 20 0 (ex_alive ''b'' 6 [10, 0, 0, 3]) NoChan False m1 of
           Inl x \<Rightarrow> False
         | Inr m2 \<Rightarrow>
             heap m2 \<noteq> heap m1 \<and> Addr (heap m2 1) = [10, 0, 0, 3] \<and>
             State (heap m2 1) = StateAlive \<and> Incarnation (heap m2 1) = 6))"
  using reachable_ex_b_dead
  by (simp add: ex_simps canReclaim_def time_Since_def time_Sub_def word_sless_alt fun_eq_iff)

end
